theory Spec2Isabelle
  imports Complex_Main "HOL-Library.Sublist"
begin

section \<open>Strings\<close>

text \<open>
  A JavaScript string is a sequence of UTF-16 code units; it is modelled as the list of
  its code units, each a natural number.  \<open>js\<close> writes the string of an ASCII literal.
  \<open>trim\<close> strips white space and line terminators from both ends: the code units
  9 to 13, 32, 160, 5760 (U+1680), 8192 to 8202 (U+2000 to U+200A), 8232, 8233, 8239,
  8287, 12288 (U+3000) and 65279 (U+FEFF).  \<open>includes\<close> looks for a contiguous
  occurrence.  \<open>toLowerCase\<close> is the engine's Unicode case conversion; it is not
  defined here but taken as a parameter wherever the code calls it.
\<close>

type_synonym jsstring = "nat list"

definition js :: "string \<Rightarrow> jsstring" where
  "js s = map of_char s"

definition isWhiteSpace :: "nat \<Rightarrow> bool" where
  "isWhiteSpace u =
     (u \<in> {9, 10, 11, 12, 13, 32, 160, 5760, 8232, 8233, 8239, 8287, 12288, 65279} \<or>
      (8192 \<le> u \<and> u \<le> 8202))"

definition trim :: "jsstring \<Rightarrow> jsstring" where
  "trim s = rev (dropWhile isWhiteSpace (rev (dropWhile isWhiteSpace s)))"

fun String_includes :: "jsstring \<Rightarrow> jsstring \<Rightarrow> bool" where
  "String_includes [] searchString = (searchString = [])"
| "String_includes (c # s) searchString =
     (prefix searchString (c # s) \<or> String_includes s searchString)"


section \<open>The countdown timer (\<open>useTimer\<close> in \<open>src/pages/Index.tsx\<close>)\<close>

text \<open>
  The hook keeps two pieces of React state, \<open>timeRemaining\<close> and \<open>isTimeUp\<close>, and one
  ref, \<open>timerRef\<close>, holding the handle returned by \<open>window.setInterval\<close> or \<open>null\<close>.
  The window's table of repeating timers is made explicit: \<open>intervals\<close> lists the handles
  that are still active, \<open>lastHandle\<close> is the last handle the window has issued (handles
  are positive integers, so a stored handle is truthy).  The seconds are JavaScript numbers
  that only ever hold small integers here, from the initial time down to zero; an \<open>int\<close>
  stands for the number of the same value.
\<close>

record timer =
  timeRemaining :: int
  isTimeUp :: bool
  timerRef :: "nat option"
  intervals :: "nat list"
  lastHandle :: nat

definition useTimer :: "int \<Rightarrow> timer" where
  "useTimer initialTime =
     \<lparr>timeRemaining = initialTime, isTimeUp = False, timerRef = None,
      intervals = [], lastHandle = 0\<rparr>"

text \<open>\<open>if (timerRef.current)\<close>: \<open>null\<close> and \<open>0\<close> are falsy, every other handle is truthy.\<close>

fun truthy_handle :: "nat option \<Rightarrow> bool" where
  "truthy_handle None = False"
| "truthy_handle (Some h) = (h \<noteq> 0)"

text \<open>\<open>clearInterval(h)\<close>: removes the handle from the table; \<open>clearInterval(null)\<close> does nothing.\<close>

fun clearInterval :: "nat option \<Rightarrow> timer \<Rightarrow> timer" where
  "clearInterval None s = s"
| "clearInterval (Some h) s = s\<lparr>intervals := removeAll h (intervals s)\<rparr>"

definition startTimer :: "timer \<Rightarrow> timer" where
  "startTimer s =
     (if truthy_handle (timerRef s) then s
      else let h = Suc (lastHandle s)
           in s\<lparr>isTimeUp := False, timerRef := Some h,
                intervals := intervals s @ [h], lastHandle := h\<rparr>)"

text \<open>The function handed to \<open>setInterval\<close>: the state updater with its two side effects.\<close>

definition interval_callback :: "timer \<Rightarrow> timer" where
  "interval_callback s =
     (if timeRemaining s \<le> 1
      then (clearInterval (timerRef s) s)\<lparr>isTimeUp := True, timeRemaining := 0\<rparr>
      else s\<lparr>timeRemaining := timeRemaining s - 1\<rparr>)"

text \<open>
  One second of wall-clock time: every repeating timer that is active when the second ends
  runs its callback once, unless an earlier callback of the same second has cleared it.
\<close>

definition tick :: "timer \<Rightarrow> timer" where
  "tick s = fold (\<lambda>h s'. if h \<in> set (intervals s') then interval_callback s' else s')
              (intervals s) s"

definition resetTimer :: "int \<Rightarrow> timer \<Rightarrow> timer" where
  "resetTimer initialTime s =
     (let s' = (if truthy_handle (timerRef s)
                then (clearInterval (timerRef s) s)\<lparr>timerRef := None\<rparr> else s)
      in s'\<lparr>timeRemaining := initialTime, isTimeUp := False\<rparr>)"

text \<open>
  What can happen to a mounted timer: the two operations the hook returns and the passing
  of a second.  The page mounts the hook with 3600 seconds.
\<close>

datatype timer_event = Start | Reset | Second

fun timer_step :: "timer \<Rightarrow> timer_event \<Rightarrow> timer" where
  "timer_step s Start = startTimer s"
| "timer_step s Reset = resetTimer 3600 s"
| "timer_step s Second = tick s"

definition timer_run :: "timer_event list \<Rightarrow> timer" where
  "timer_run es = foldl timer_step (useTimer 3600) es"

text \<open>
  \<open>formatTime\<close>.  Its argument is a JavaScript number, a double.  On the integers of
  magnitude below \<open>2 ^ 53\<close> the operations used here are exact: \<open>Math.floor(seconds / 60)\<close>
  is \<open>div\<close> on \<open>int\<close>, \<open>%\<close> is the remainder with the sign of the dividend, and
  \<open>String(n)\<close> is the decimal numeral of \<open>n\<close>, with a minus sign when negative.  On
  other numbers (larger ones, where the division rounds and \<open>String\<close> turns to exponent
  notation, and fractions) the function is not modelled: the result is \<open>None\<close> there.
  \<open>padStart\<close> fills on the left with the padding text, cut to fit.
\<close>

definition digit_unit :: "nat \<Rightarrow> nat" where
  "digit_unit d = 48 + d"

fun String_nat :: "nat \<Rightarrow> jsstring" where
  "String_nat n =
     (if n < 10 then [digit_unit n] else String_nat (n div 10) @ [digit_unit (n mod 10)])"

definition String_number :: "int \<Rightarrow> jsstring" where
  "String_number n = (if n < 0 then js ''-'' @ String_nat (nat (- n)) else String_nat (nat n))"

definition padStart :: "nat \<Rightarrow> jsstring \<Rightarrow> jsstring \<Rightarrow> jsstring" where
  "padStart targetLength padString s =
     (if targetLength \<le> length s \<or> padString = [] then s
      else take (targetLength - length s)
             (concat (replicate (targetLength - length s) padString)) @ s)"

definition js_rem :: "int \<Rightarrow> int \<Rightarrow> int" where
  "js_rem a b = sgn a * (\<bar>a\<bar> mod \<bar>b\<bar>)"

definition formatTime :: "int \<Rightarrow> jsstring option" where
  "formatTime seconds =
     (if \<bar>seconds\<bar> < 2 ^ 53
      then (let minutes = seconds div 60;
                remainingSeconds = js_rem seconds 60;
                formattedMinutes = padStart 2 (js ''0'') (String_number minutes);
                formattedSeconds = padStart 2 (js ''0'') (String_number remainingSeconds)
            in Some (formattedMinutes @ js '':'' @ formattedSeconds))
      else None)"


section \<open>Tasks and the task form (\<open>Task\<close>, \<open>TaskForm\<close>)\<close>

datatype priority = high | medium | low

record task =
  task_id :: jsstring
  title :: jsstring
  description :: "jsstring option"
  priority :: priority
  completed :: bool
  dueDate :: "jsstring option"
  createdAt :: jsstring

text \<open>The state of the form component; \<open>errors\<close> is an object, kept as its list of entries.\<close>

record form =
  form_title :: jsstring
  form_description :: jsstring
  form_priority :: priority
  form_dueDate :: jsstring
  form_errors :: "(jsstring \<times> jsstring) list"

definition TaskForm :: "task option \<Rightarrow> form" where
  "TaskForm initialTask =
     \<lparr>form_title = (case initialTask of None \<Rightarrow> [] | Some t \<Rightarrow> title t),
      form_description =
        (case initialTask of None \<Rightarrow> []
         | Some t \<Rightarrow> (case description t of None \<Rightarrow> [] | Some d \<Rightarrow> d)),
      form_priority = (case initialTask of None \<Rightarrow> medium | Some t \<Rightarrow> priority t),
      form_dueDate =
        (case initialTask of None \<Rightarrow> []
         | Some t \<Rightarrow> (case dueDate t of None \<Rightarrow> [] | Some d \<Rightarrow> take 10 d)),
      form_errors = []\<rparr>"

text \<open>
  \<open>handleSubmit\<close> returns the form state and the task handed to \<open>onSave\<close>, if any.
  \<open>uuid\<close> and \<open>now\<close> are what \<open>uuidv4()\<close> and \<open>new Date().toISOString()\<close> return when
  they are called.  \<open>a || b\<close> takes \<open>b\<close> when \<open>a\<close> is missing or the empty string.
\<close>

definition handleSubmit ::
    "task option \<Rightarrow> jsstring \<Rightarrow> jsstring \<Rightarrow> form \<Rightarrow> form \<times> task option" where
  "handleSubmit initialTask uuid now f =
     (let newErrors = (if trim (form_title f) = [] then [(js ''title'', js ''Title is required.'')]
                       else [])
      in if length newErrors > 0 then (f\<lparr>form_errors := newErrors\<rparr>, None)
         else (f, Some
           \<lparr>task_id = (case initialTask of None \<Rightarrow> uuid
                        | Some t \<Rightarrow> if task_id t \<noteq> [] then task_id t else uuid),
            title = form_title f,
            description = Some (form_description f),
            priority = form_priority f,
            completed = (case initialTask of None \<Rightarrow> False | Some t \<Rightarrow> completed t),
            dueDate = (if form_dueDate f \<noteq> [] then Some (form_dueDate f) else None),
            createdAt = (case initialTask of None \<Rightarrow> now
                         | Some t \<Rightarrow> if createdAt t \<noteq> [] then createdAt t else now)\<rparr>))"

section \<open>The page state and its handlers (\<open>Index\<close>)\<close>

record index_state =
  tasks :: "task list"
  filteredTasks :: "task list"
  showForm :: bool
  editingTask :: "task option"
  testStarted :: bool
  searchQuery :: jsstring

definition Index :: index_state where
  "Index = \<lparr>tasks = [], filteredTasks = [], showForm = False, editingTask = None,
             testStarted = False, searchQuery = []\<rparr>"

text \<open>
  The filter.  \<open>toLowerCase\<close> stands for \<open>String.prototype.toLowerCase\<close>, which
  the engine provides.
\<close>

definition filterTasks :: "(jsstring \<Rightarrow> jsstring) \<Rightarrow> task list \<Rightarrow> jsstring \<Rightarrow> task list" where
  "filterTasks toLowerCase ts query =
     (if trim query = [] then ts
      else let lowerCaseQuery = toLowerCase query
           in filter (\<lambda>task. String_includes (toLowerCase (title task)) lowerCaseQuery \<or>
                       (case description task of None \<Rightarrow> False
                        | Some d \<Rightarrow> d \<noteq> [] \<and> String_includes (toLowerCase d) lowerCaseQuery)) ts)"

text \<open>The effect that runs whenever \<open>tasks\<close> or \<open>searchQuery\<close> has changed.\<close>

definition filterEffect :: "(jsstring \<Rightarrow> jsstring) \<Rightarrow> index_state \<Rightarrow> index_state" where
  "filterEffect toLowerCase st =
     st\<lparr>filteredTasks := filterTasks toLowerCase (tasks st) (searchQuery st)\<rparr>"


definition handleAddTask :: "task \<Rightarrow> index_state \<Rightarrow> index_state" where
  "handleAddTask newTask st = st\<lparr>tasks := newTask # tasks st, showForm := False\<rparr>"

definition handleEditTask :: "task \<Rightarrow> index_state \<Rightarrow> index_state" where
  "handleEditTask taskToEdit st = st\<lparr>editingTask := Some taskToEdit, showForm := True\<rparr>"

definition handleSaveEditedTask :: "task \<Rightarrow> index_state \<Rightarrow> index_state" where
  "handleSaveEditedTask editedTask st =
     st\<lparr>tasks := map (\<lambda>task. if task_id task = task_id editedTask then editedTask else task)
                    (tasks st),
        editingTask := None, showForm := False\<rparr>"

definition handleDeleteTask :: "task \<Rightarrow> index_state \<Rightarrow> index_state" where
  "handleDeleteTask taskToDelete st =
     st\<lparr>tasks := filter (\<lambda>task. task_id task \<noteq> task_id taskToDelete) (tasks st)\<rparr>"

definition handleToggleComplete :: "task \<Rightarrow> index_state \<Rightarrow> index_state" where
  "handleToggleComplete taskToToggle st =
     st\<lparr>tasks := map (\<lambda>task. if task_id task = task_id taskToToggle
                            then task\<lparr>completed := \<not> completed task\<rparr> else task)
                    (tasks st)\<rparr>"

definition handleStartTest :: "index_state \<times> timer \<Rightarrow> index_state \<times> timer" where
  "handleStartTest p = (case p of (st, tm) \<Rightarrow> (st\<lparr>testStarted := True\<rparr>, startTimer tm))"

definition handleResetTest :: "index_state \<times> timer \<Rightarrow> index_state \<times> timer" where
  "handleResetTest p =
     (case p of (st, tm) \<Rightarrow>
        (st\<lparr>testStarted := False, tasks := [], showForm := False\<rparr>, resetTimer 3600 tm))"

text \<open>
  Submitting the form as the page wires it: \<open>initialTask\<close> is \<open>editingTask\<close>, \<open>onSave\<close> is
  \<open>handleSaveEditedTask\<close> when a task is being edited and \<open>handleAddTask\<close> otherwise, and
  \<open>onCancel\<close> hides the form.  With no task being edited this is the store's create,
  with one it is its update.
\<close>

definition submit :: "jsstring \<Rightarrow> jsstring \<Rightarrow> form \<Rightarrow> index_state \<Rightarrow> form \<times> index_state" where
  "submit uuid now f st =
     (case handleSubmit (editingTask st) uuid now f of
        (f', None) \<Rightarrow> (f', st)
      | (f', Some newTask) \<Rightarrow>
          (f', ((if editingTask st \<noteq> None then handleSaveEditedTask newTask st
                 else handleAddTask newTask st))\<lparr>showForm := False\<rparr>))"

text \<open>
  The two buttons that drive the timer.  The page renders the start buttons only while
  \<open>testStarted\<close> is false and the reset button only while it is true; a click on a
  button that is not rendered cannot happen and is modelled as no change.
\<close>

datatype page_event = ClickStart | ClickReset | SecondPasses

fun page_step :: "index_state \<times> timer \<Rightarrow> page_event \<Rightarrow> index_state \<times> timer" where
  "page_step p ClickStart = (if testStarted (fst p) then p else handleStartTest p)"
| "page_step p ClickReset = (if testStarted (fst p) then handleResetTest p else p)"
| "page_step p SecondPasses = (fst p, tick (snd p))"

definition page_run :: "page_event list \<Rightarrow> index_state \<times> timer" where
  "page_run es = foldl page_step (Index, useTimer 3600) es"


section \<open>Loading the stored list\<close>

text \<open>
  \<open>localStorage.getItem\<close> and \<open>JSON.parse\<close> belong to the browser.  The first is given by
  its outcome: an exception, \<open>null\<close> or the stored text; the second is a parameter, a
  function from the text to an exception or the parsed value.  The effect returns the value
  of \<open>tasks\<close> after it has run (the state starts as the empty array) and what it has
  passed to \<open>console.error\<close>.
\<close>

datatype json =
  JNull | JBool bool | JNumber rat | JString jsstring | JArray "json list"
  | JObject "(jsstring \<times> json) list"

datatype exception = SyntaxError | SecurityError

definition load :: "(jsstring \<Rightarrow> exception + json) \<Rightarrow> exception + jsstring option
    \<Rightarrow> json \<times> exception list" where
  "load JSON_parse getItem =
     (case getItem of
        Inl error \<Rightarrow> (JArray [], [error])
      | Inr None \<Rightarrow> (JArray [], [])
      | Inr (Some storedTasks) \<Rightarrow>
          if storedTasks = [] then (JArray [], [])
          else (case JSON_parse storedTasks of
                  Inl error \<Rightarrow> (JArray [], [error])
                | Inr loadedTasks \<Rightarrow> (loadedTasks, [])))"

section \<open>Notions used to state the properties\<close>

text \<open>
  What every state of the page's timer satisfies: without a stored handle no repeating
  timer is active, the flag is down and the full 3600 seconds remain; with a stored
  handle, that handle is the one active timer until the flag goes up, and none is active
  afterwards.
\<close>

definition timer_inv :: "timer \<Rightarrow> bool" where
  "timer_inv s =
     (case timerRef s of
        None \<Rightarrow> intervals s = [] \<and> \<not> isTimeUp s \<and> timeRemaining s = 3600
      | Some h \<Rightarrow> h \<noteq> 0 \<and> (if isTimeUp s then intervals s = [] else intervals s = [h]))"

text \<open>The number a text of decimal digits denotes; no number for any other text.\<close>

definition digit_value :: "nat \<Rightarrow> nat option" where
  "digit_value u = (if 48 \<le> u \<and> u \<le> 57 then Some (u - 48) else None)"

fun read_digit :: "nat option \<Rightarrow> nat \<Rightarrow> nat option" where
  "read_digit None u = None"
| "read_digit (Some a) u = (case digit_value u of None \<Rightarrow> None | Some d \<Rightarrow> Some (10 * a + d))"

definition read_decimal :: "jsstring \<Rightarrow> nat option" where
  "read_decimal s = (if s = [] then None else foldl read_digit (Some 0) s)"

text \<open>
  Letter case on ASCII and Latin-1 text.  There \<open>toLowerCase\<close> works code unit by code
  unit: it takes \<open>A\<close> to \<open>Z\<close> (65 to 90) and the capital letters 192 to 222 (215, the
  multiplication sign, is no letter) to the code unit 32 above and leaves every other
  code unit below 256 as it is.  \<open>unitwise lc s\<close> says that the case conversion \<open>lc\<close>
  treats the text \<open>s\<close> in this way.  Two code units are the same letter when they are
  equal or one is such a capital and the other its small letter; a query occurs in a
  text up to case when some stretch of the text matches it letter by letter.
\<close>

definition capital :: "nat \<Rightarrow> bool" where
  "capital u = ((65 \<le> u \<and> u \<le> 90) \<or> (192 \<le> u \<and> u \<le> 222 \<and> u \<noteq> 215))"

definition toLowerCase_latin1 :: "nat \<Rightarrow> nat" where
  "toLowerCase_latin1 u = (if capital u then u + 32 else u)"

definition unitwise :: "(jsstring \<Rightarrow> jsstring) \<Rightarrow> jsstring \<Rightarrow> bool" where
  "unitwise lc s = (lc s = map toLowerCase_latin1 s)"

definition same_letter :: "nat \<Rightarrow> nat \<Rightarrow> bool" where
  "same_letter a b = (a = b \<or> (capital a \<and> b = a + 32) \<or> (capital b \<and> a = b + 32))"

definition occurs_ignoring_case :: "jsstring \<Rightarrow> jsstring \<Rightarrow> bool" where
  "occurs_ignoring_case q s = (\<exists>ps u ss. s = ps @ u @ ss \<and> list_all2 same_letter u q)"

definition blank :: "jsstring \<Rightarrow> bool" where
  "blank s = (\<forall>c \<in> set s. isWhiteSpace c)"

text \<open>No title in the list is empty or made of white space only.\<close>

definition titles_nonblank :: "task list \<Rightarrow> bool" where
  "titles_nonblank ts = list_all (\<lambda>t. \<not> blank (title t)) ts"


section \<open>The timer: proofs\<close>

lemma tick_stopped: "intervals s = [] \<Longrightarrow> tick s = s"
  by (simp add: tick_def)

lemma tick_single: "intervals s = [h] \<Longrightarrow> tick s = interval_callback s"
  by (simp add: tick_def)

lemma tick_running:
  "intervals s = [h] \<Longrightarrow> 1 < timeRemaining s \<Longrightarrow> tick s = s\<lparr>timeRemaining := timeRemaining s - 1\<rparr>"
  by (simp add: tick_single interval_callback_def)

lemma tick_expire:
  "intervals s = [h] \<Longrightarrow> timerRef s = Some h \<Longrightarrow> timeRemaining s \<le> 1 \<Longrightarrow>
   tick s = s\<lparr>intervals := [], isTimeUp := True, timeRemaining := 0\<rparr>"
  by (simp add: tick_single interval_callback_def)

lemma ticks_running:
  "intervals s = [h] \<Longrightarrow> int k < timeRemaining s \<Longrightarrow>
   (tick ^^ k) s = s\<lparr>timeRemaining := timeRemaining s - int k\<rparr>"
proof (induction k)
  case 0
  then show ?case by simp
next
  case (Suc k)
  then show ?case by (simp add: tick_running)
qed

lemma ticks_stopped: "intervals s = [] \<Longrightarrow> (tick ^^ k) s = s"
  by (induction k) (simp_all add: tick_stopped)

lemma foldl_Second: "foldl timer_step s (replicate k Second) = (tick ^^ k) s"
  by (induction k arbitrary: s) (simp_all add: funpow_swap1)

lemma started: "startTimer (useTimer n) =
   \<lparr>timeRemaining = n, isTimeUp = False, timerRef = Some (Suc 0), intervals = [Suc 0], lastHandle = Suc 0\<rparr>"
  by (simp add: startTimer_def useTimer_def)

lemma run_before: 
  assumes "k < 3600"
  shows "timer_run (Start # replicate k Second) =
   \<lparr>timeRemaining = 3600 - int k, isTimeUp = False, timerRef = Some (Suc 0), intervals = [Suc 0], lastHandle = Suc 0\<rparr>"
  using assms by (simp add: timer_run_def foldl_Second started ticks_running [where h = "Suc 0"])

lemma run_expired:
  assumes "3600 \<le> k"
  shows "timer_run (Start # replicate k Second) =
   \<lparr>timeRemaining = 0, isTimeUp = True, timerRef = Some (Suc 0), intervals = [], lastHandle = Suc 0\<rparr>"
proof -
  let ?e = "\<lparr>timeRemaining = 0, isTimeUp = True, timerRef = Some (Suc 0), intervals = [], lastHandle = Suc 0\<rparr>"
  from assms obtain j where k: "k = j + 3600" by (metis add.commute le_Suc_ex)
  have "(tick ^^ 3599) (startTimer (useTimer 3600)) =
     \<lparr>timeRemaining = 1, isTimeUp = False, timerRef = Some (Suc 0), intervals = [Suc 0], lastHandle = Suc 0\<rparr>"
    by (simp add: started ticks_running [where h = "Suc 0"])
  then have "(tick ^^ Suc 3599) (startTimer (useTimer 3600)) = ?e"
    by (simp only: funpow.simps o_apply) (simp add: tick_expire [where h = "Suc 0"])
  then have e: "(tick ^^ 3600) (startTimer (useTimer 3600)) = ?e" by simp
  have "(tick ^^ k) (startTimer (useTimer 3600)) = (tick ^^ j) ((tick ^^ 3600) (startTimer (useTimer 3600)))"
    unfolding k by (simp only: funpow_add o_apply)
  also have "\<dots> = ?e" unfolding e by (simp add: ticks_stopped)
  finally show ?thesis by (simp add: timer_run_def foldl_Second)
qed

lemma ticks_expire:
  assumes "intervals s = [h]" "timerRef s = Some h" "0 < timeRemaining s" "timeRemaining s \<le> int k"
  shows "(tick ^^ k) s = s\<lparr>intervals := [], isTimeUp := True, timeRemaining := 0\<rparr>"
proof -
  define j where "j = nat (timeRemaining s) - 1"
  from assms obtain i where k: "k = i + Suc j"
    unfolding j_def by (metis Suc_pred' add.commute le_Suc_ex nat_le_iff zero_less_nat_eq)
  have r: "timeRemaining s = int j + 1" using assms(3) by (simp add: j_def)
  have "(tick ^^ j) s = s\<lparr>timeRemaining := 1\<rparr>"
    using ticks_running [of s h j] assms(1) r by simp
  then have "(tick ^^ Suc j) s = s\<lparr>intervals := [], isTimeUp := True, timeRemaining := 0\<rparr>"
    using assms(1,2) by (simp add: tick_expire [where h = h])
  then have "(tick ^^ k) s = (tick ^^ i) (s\<lparr>intervals := [], isTimeUp := True, timeRemaining := 0\<rparr>)"
    unfolding k by (simp only: funpow_add o_apply)
  then show ?thesis by (simp add: ticks_stopped)
qed

lemma callback_clamp: "timeRemaining (interval_callback s) = max 0 (timeRemaining s - 1)"
  by (cases "timerRef s") (auto simp add: interval_callback_def)

lemma expired_stuck:
  assumes "Reset \<notin> set es" "truthy_handle (timerRef s)" "intervals s = []"
  shows "foldl timer_step s es = s"
  using assms
proof (induction es)
  case Nil
  then show ?case by simp
next
  case (Cons e es)
  then have "timer_step s e = s"
    by (cases e) (simp_all add: startTimer_def tick_stopped)
  with Cons show ?case by simp
qed

lemma inv_init: "timer_inv (useTimer 3600)"
  by (simp add: timer_inv_def useTimer_def)

lemma inv_start: "timer_inv s \<Longrightarrow> timer_inv (startTimer s)"
  by (auto simp add: timer_inv_def startTimer_def Let_def split: option.splits)

lemma inv_reset: "timer_inv s \<Longrightarrow> timer_inv (resetTimer 3600 s)"
  by (auto simp add: timer_inv_def resetTimer_def Let_def split: option.splits if_splits)

lemma inv_tick: "timer_inv s \<Longrightarrow> timer_inv (tick s)"
proof (cases "intervals s")
  case Nil
  assume "timer_inv s"
  with Nil show ?thesis by (simp add: tick_stopped)
next
  case (Cons h hs)
  assume i: "timer_inv s"
  with Cons have "intervals s = [h]" "timerRef s = Some h"
    by (auto simp add: timer_inv_def split: option.splits if_splits)
  with i show ?thesis
    by (auto simp add: tick_single interval_callback_def timer_inv_def)
qed

lemma inv_step: "timer_inv s \<Longrightarrow> timer_inv (timer_step s e)"
  by (cases e) (simp_all add: inv_start inv_reset inv_tick)

lemma inv_foldl: "timer_inv s \<Longrightarrow> timer_inv (foldl timer_step s es)"
  by (induction es arbitrary: s) (simp_all add: inv_step)

lemma inv_run: "timer_inv (timer_run es)"
  by (simp add: timer_run_def inv_foldl inv_init)

text \<open>
  Claim C2.  Every run of the interval callback takes one second off and never goes below
  zero.  After \<open>start()\<close> on the freshly mounted timer, \<open>k\<close> seconds later: while
  \<open>k < 3600\<close> there remain \<open>3600 - k\<close> seconds, the flag is down and the repeating timer
  is active; from \<open>k = 3600\<close> on the remaining time is zero, the flag is up and no
  repeating timer is active, so that nothing short of a reset changes the state again.
  \<open>reset()\<close> then restores 3600 seconds with the flag down, and a following \<open>start()\<close>
  counts again.
\<close>

theorem countdown_from_3600:
  "timeRemaining (interval_callback s) = max 0 (timeRemaining s - 1) \<and>
   (k < 3600 \<longrightarrow>
      timeRemaining (timer_run (Start # replicate k Second)) = 3600 - int k \<and>
      \<not> isTimeUp (timer_run (Start # replicate k Second)) \<and>
      intervals (timer_run (Start # replicate k Second)) \<noteq> []) \<and>
   (3600 \<le> k \<longrightarrow>
      timeRemaining (timer_run (Start # replicate k Second)) = 0 \<and>
      isTimeUp (timer_run (Start # replicate k Second)) \<and>
      intervals (timer_run (Start # replicate k Second)) = []) \<and>
   (Reset \<notin> set es \<longrightarrow>
      foldl timer_step (timer_run (Start # replicate 3600 Second)) es =
      timer_run (Start # replicate 3600 Second)) \<and>
   timeRemaining (resetTimer 3600 (timer_run (Start # replicate k Second))) = 3600 \<and>
   \<not> isTimeUp (resetTimer 3600 (timer_run (Start # replicate k Second))) \<and>
   timeRemaining (tick (startTimer (resetTimer 3600 (timer_run (Start # replicate k Second))))) = 3599"
proof -
  let ?r = "timer_run (Start # replicate k Second)"
  have a: "k < 3600 \<longrightarrow> timeRemaining ?r = 3600 - int k \<and> \<not> isTimeUp ?r \<and> intervals ?r \<noteq> []"
    by (simp add: run_before)
  have b: "3600 \<le> k \<longrightarrow> timeRemaining ?r = 0 \<and> isTimeUp ?r \<and> intervals ?r = []"
    by (simp add: run_expired)
  have c: "Reset \<notin> set es \<longrightarrow>
      foldl timer_step (timer_run (Start # replicate 3600 Second)) es =
      timer_run (Start # replicate 3600 Second)"
    by (simp add: expired_stuck run_expired)
  have d: "timeRemaining (resetTimer 3600 ?r) = 3600 \<and> \<not> isTimeUp (resetTimer 3600 ?r)"
    by (simp add: resetTimer_def Let_def)
  have "timer_inv (resetTimer 3600 ?r)" by (simp add: inv_reset inv_run)
  moreover have "timerRef (resetTimer 3600 ?r) = None"
    using inv_run [of "Start # replicate k Second"]
    by (auto simp add: resetTimer_def Let_def timer_inv_def split: option.splits)
  ultimately have e: "timeRemaining (tick (startTimer (resetTimer 3600 ?r))) = 3599"
    using d by (simp add: timer_inv_def startTimer_def Let_def tick_single interval_callback_def)
  from a b c d e show ?thesis by (simp only: callback_clamp) simp
qed

theorem countdown_from_3600_witness:
  "timeRemaining (timer_run (Start # replicate 10 Second)) = 3590 \<and>
   \<not> isTimeUp (timer_run (Start # replicate 10 Second)) \<and>
   timeRemaining (timer_run (Start # replicate 3600 Second)) = 0 \<and>
   isTimeUp (timer_run (Start # replicate 3600 Second)) \<and>
   foldl timer_step (timer_run (Start # replicate 3600 Second)) [Second, Start, Second] =
     timer_run (Start # replicate 3600 Second)"
  using countdown_from_3600 [of "useTimer 3600" 10 "[]"]
    countdown_from_3600 [of "useTimer 3600" 3600 "[Second, Start, Second]"]
  by simp

text \<open>
  Claim C1, as stated, fails.  After expiry the countdown is not running, yet \<open>start()\<close>
  leaves the flag up and starts no repeating timer: the expiry branch clears the running
  timer but leaves its handle in \<open>timerRef\<close>, and \<open>startTimer\<close> returns at once on a
  stored handle.
\<close>

theorem start_after_expiry_counterexample:
  "intervals (timer_run (Start # replicate 3600 Second)) = [] \<and>
   isTimeUp (startTimer (timer_run (Start # replicate 3600 Second))) \<and>
   intervals (startTimer (timer_run (Start # replicate 3600 Second))) = []"
  by (simp add: run_expired startTimer_def)

text \<open>
  Claim C1, amended.  In every state the page's timer can reach: when no handle is stored
  (the fresh timer and the timer after a reset), \<open>start()\<close> leaves the flag down and starts
  one repeating timer, after which \<open>k\<close> seconds take the 3600 seconds down to
  \<open>max 0 (3600 - k)\<close>, the flag going up at \<open>k = 3600\<close>; when a handle is stored, which is
  so whenever the countdown is running, and also after expiry, \<open>start()\<close> changes nothing.
  At most one repeating timer is ever active, and a second \<open>start()\<close> right after a first
  one changes nothing.
\<close>

theorem start_without_handle:
  "(timerRef (timer_run es) = None \<longrightarrow>
      \<not> isTimeUp (startTimer (timer_run es)) \<and>
      (\<exists>h. intervals (startTimer (timer_run es)) = [h]) \<and>
      timeRemaining ((tick ^^ k) (startTimer (timer_run es))) = max 0 (3600 - int k) \<and>
      (isTimeUp ((tick ^^ k) (startTimer (timer_run es))) \<longleftrightarrow> 3600 \<le> k)) \<and>
   (timerRef (timer_run es) \<noteq> None \<longrightarrow> startTimer (timer_run es) = timer_run es) \<and>
   (intervals (timer_run es) \<noteq> [] \<longrightarrow> timerRef (timer_run es) \<noteq> None) \<and>
   length (intervals (timer_run es)) \<le> 1 \<and>
   startTimer (startTimer (timer_run es)) = startTimer (timer_run es)"
proof -
  let ?s = "timer_run es"
  have inv: "timer_inv ?s" by (rule inv_run)
  have a: "\<not> isTimeUp (startTimer ?s) \<and> (\<exists>h. intervals (startTimer ?s) = [h]) \<and>
      timeRemaining ((tick ^^ k) (startTimer ?s)) = max 0 (3600 - int k) \<and>
      (isTimeUp ((tick ^^ k) (startTimer ?s)) \<longleftrightarrow> 3600 \<le> k)"
    if n: "timerRef ?s = None"
  proof -
    let ?h = "Suc (lastHandle ?s)"
    from inv n have s: "intervals (startTimer ?s) = [?h]" "timerRef (startTimer ?s) = Some ?h"
      "timeRemaining (startTimer ?s) = 3600" "\<not> isTimeUp (startTimer ?s)"
      by (simp_all add: timer_inv_def startTimer_def Let_def)
    show ?thesis
    proof (cases "k < 3600")
      case True
      with s show ?thesis by (simp add: ticks_running [where h = ?h])
    next
      case False
      with s show ?thesis by (simp add: ticks_expire [where h = ?h])
    qed
  qed
  have b: "startTimer ?s = ?s" if "timerRef ?s \<noteq> None"
    using inv that by (auto simp add: timer_inv_def startTimer_def split: option.splits)
  have c: "timerRef ?s \<noteq> None" if "intervals ?s \<noteq> []"
    using inv that by (auto simp add: timer_inv_def split: option.splits)
  have d: "length (intervals ?s) \<le> 1"
    using inv by (auto simp add: timer_inv_def split: option.splits if_splits)
  have e: "startTimer (startTimer ?s) = startTimer ?s"
    by (simp add: startTimer_def Let_def)
  from a b c d e show ?thesis by blast
qed

theorem start_without_handle_witness:
  "timerRef (timer_run [Start, Second, Reset]) = None \<and>
   \<not> isTimeUp (startTimer (timer_run [Start, Second, Reset])) \<and>
   timeRemaining ((tick ^^ 2) (startTimer (timer_run [Start, Second, Reset]))) = 3598 \<and>
   timerRef (timer_run [Start, Second]) \<noteq> None \<and>
   intervals (timer_run [Start, Second]) \<noteq> [] \<and>
   startTimer (timer_run [Start, Second]) = timer_run [Start, Second]"
proof -
  have n: "timerRef (timer_run [Start, Second, Reset]) = None"
    by (simp add: timer_run_def useTimer_def startTimer_def tick_def interval_callback_def
        resetTimer_def)
  have r: "timerRef (timer_run [Start, Second]) \<noteq> None" "intervals (timer_run [Start, Second]) \<noteq> []"
    by (simp_all add: timer_run_def useTimer_def startTimer_def tick_def interval_callback_def)
  from n r start_without_handle [of "[Start, Second, Reset]" 2]
    start_without_handle [of "[Start, Second]" 0]
  show ?thesis by simp
qed

text \<open>
  On the page, \<open>start()\<close> is only ever reached with no handle stored: the start buttons
  are rendered only while \<open>testStarted\<close> is false, and then \<open>timerRef\<close> holds \<open>null\<close>.
\<close>

lemma page_step_inv:
  assumes "testStarted (fst p) \<or> timerRef (snd p) = None" "timer_inv (snd p)"
  shows "(testStarted (fst (page_step p e)) \<or> timerRef (snd (page_step p e)) = None) \<and>
         timer_inv (snd (page_step p e))"
proof (cases e)
  case ClickStart
  with assms show ?thesis
    by (cases p) (auto simp add: handleStartTest_def inv_start)
next
  case ClickReset
  have "timerRef (resetTimer 3600 s) = None" if "timer_inv s" for s
    using that by (auto simp add: resetTimer_def Let_def timer_inv_def split: option.splits)
  with ClickReset assms show ?thesis
    by (cases p) (auto simp add: handleResetTest_def inv_reset)
next
  case SecondPasses
  from assms(2) have "timerRef (tick (snd p)) = timerRef (snd p)"
    by (cases "intervals (snd p)")
      (auto simp add: tick_stopped tick_single interval_callback_def timer_inv_def
        split: option.splits if_splits)
  with SecondPasses assms show ?thesis by (simp add: inv_tick)
qed

lemma page_foldl_inv:
  "testStarted (fst p) \<or> timerRef (snd p) = None \<Longrightarrow> timer_inv (snd p) \<Longrightarrow>
   (testStarted (fst (foldl page_step p es)) \<or> timerRef (snd (foldl page_step p es)) = None) \<and>
   timer_inv (snd (foldl page_step p es))"
proof (induction es arbitrary: p)
  case Nil
  then show ?case by simp
next
  case (Cons e es)
  from page_step_inv [OF Cons.prems, of e] Cons.IH [of "page_step p e"]
  show ?case by simp
qed

lemma page_start_without_handle:
  "\<not> testStarted (fst (page_run es)) \<Longrightarrow> timerRef (snd (page_run es)) = None"
  using page_foldl_inv [of "(Index, useTimer 3600)" es]
  by (auto simp add: page_run_def Index_def useTimer_def timer_inv_def)

section \<open>\<open>formatTime\<close>: proofs\<close>

declare String_nat.simps [simp del]

lemma digit_value_digit_unit: "d < 10 \<Longrightarrow> digit_value (digit_unit d) = Some d"
  by (simp add: digit_value_def digit_unit_def)

lemma String_nat_not_Nil: "String_nat n \<noteq> []"
  by (subst String_nat.simps) simp

lemma foldl_String_nat: "foldl read_digit (Some 0) (String_nat n) = Some n"
proof (induction n rule: String_nat.induct)
  case (1 n)
  show ?case
  proof (cases "n < 10")
    case True
    then show ?thesis
      by (subst String_nat.simps) (simp add: digit_value_digit_unit)
  next
    case False
    with 1 have ih: "foldl read_digit (Some 0) (String_nat (n div 10)) = Some (n div 10)" by simp
    from False show ?thesis
      by (subst String_nat.simps) (simp add: digit_value_digit_unit ih)
  qed
qed

lemma read_decimal_String_nat: "read_decimal (String_nat n) = Some n"
  by (simp add: read_decimal_def String_nat_not_Nil foldl_String_nat)

lemma String_nat_1: "n < 10 \<Longrightarrow> String_nat n = [digit_unit n]"
  by (subst String_nat.simps) simp

lemma String_nat_2:
  "10 \<le> n \<Longrightarrow> n < 100 \<Longrightarrow> String_nat n = [digit_unit (n div 10), digit_unit (n mod 10)]"
  by (subst String_nat.simps) (simp add: String_nat_1)

lemma length_String_nat_ge: "10 \<le> n \<Longrightarrow> 2 \<le> length (String_nat n)"
proof -
  assume "10 \<le> n"
  have "String_nat (n div 10) \<noteq> []" by (rule String_nat_not_Nil)
  then have "1 \<le> length (String_nat (n div 10))" by (cases "String_nat (n div 10)") simp_all
  with \<open>10 \<le> n\<close> show ?thesis by (subst String_nat.simps) simp
qed

lemma length_String_nat_3: "100 \<le> n \<Longrightarrow> 2 < length (String_nat n)"
proof -
  assume "100 \<le> n"
  then have "10 \<le> n div 10" by simp
  then have "2 \<le> length (String_nat (n div 10))" by (rule length_String_nat_ge)
  with \<open>100 \<le> n\<close> show ?thesis by (subst String_nat.simps) simp
qed

lemma hd_String_nat: "0 < n \<Longrightarrow> hd (String_nat n) \<noteq> 48"
proof (induction n rule: String_nat.induct)
  case (1 n)
  show ?case
  proof (cases "n < 10")
    case True
    with 1(2) show ?thesis by (simp add: String_nat_1 digit_unit_def)
  next
    case False
    then have "0 < n div 10" by simp
    with 1 False have "hd (String_nat (n div 10)) \<noteq> 48" by simp
    with False show ?thesis
      by (subst String_nat.simps) (simp add: String_nat_not_Nil)
  qed
qed

lemma padStart_2:
  "padStart 2 (js ''0'') s = (if length s < 2 then replicate (2 - length s) 48 @ s else s)"
  by (auto simp add: padStart_def js_def)

lemma js_rem_nonneg: "0 \<le> a \<Longrightarrow> js_rem a 60 = a mod 60"
  by (cases "a = 0") (simp_all add: js_rem_def)

lemma two_digits:
  "n < 100 \<Longrightarrow>
   padStart 2 (js ''0'') (String_nat n) = [digit_unit (n div 10), digit_unit (n mod 10)]"
proof (cases "n < 10")
  case True
  then show ?thesis by (simp add: padStart_2 String_nat_1 digit_unit_def)
next
  case False
  assume "n < 100"
  with False show ?thesis by (simp add: padStart_2 String_nat_2)
qed

lemma formatTime_nonneg:
  assumes "0 \<le> s" "s < 2 ^ 53"
  shows "formatTime s =
     Some (padStart 2 (js ''0'') (String_nat (nat (s div 60))) @
           [58, digit_unit (nat (s mod 60) div 10), digit_unit (nat (s mod 60) mod 10)])"
proof -
  have r: "nat (s mod 60) < 100" using assms by simp
  have sm: "String_number (s div 60) = String_nat (nat (s div 60))"
    using assms by (simp add: String_number_def pos_imp_zdiv_nonneg_iff)
  have sr: "String_number (js_rem s 60) = String_nat (nat (s mod 60))"
    using assms by (simp add: String_number_def js_rem_nonneg)
  have c: "js '':'' = [58]" by (simp add: js_def)
  from assms show ?thesis
    by (simp add: formatTime_def Let_def sm sr two_digits [OF r] c)
qed

text \<open>
  Claim C9, as stated, fails from 100 minutes on: \<open>formatTime 6000\<close> is \<open>100:00\<close>, six
  characters, and not two digits, a colon and two digits.  \<open>padStart\<close> fills up to two
  digits and never cuts.
\<close>

theorem formatTime_counterexample:
  "formatTime 6000 = Some (js ''100:00'') \<and>
   (\<forall>a b c d. formatTime 6000 \<noteq> Some [a, b, 58, c, d])"
proof -
  have "String_nat 100 = js ''100''"
    by (simp add: js_def digit_unit_def String_nat.simps [of 100] String_nat_2)
  then show ?thesis
    by (simp add: formatTime_nonneg padStart_def js_def digit_unit_def)
qed

text \<open>
  Claim C9, amended.  For every integer \<open>s\<close> with \<open>0 \<le> s < 6000\<close>, \<open>formatTime s\<close> is the
  two digits of \<open>s div 60\<close>, a colon and the two digits of \<open>s mod 60\<close>.  For
  \<open>6000 \<le> s < 2 ^ 53\<close> it is the plain numeral of \<open>s div 60\<close>, which has more than two
  digits and no leading zero, a colon and the two digits of \<open>s mod 60\<close>.  The digit pairs
  denote the numbers they stand for.
\<close>

theorem formatTime_MM_SS:
  "(0 \<le> s \<and> s < 6000 \<longrightarrow>
      formatTime s =
        Some [digit_unit (nat (s div 60) div 10), digit_unit (nat (s div 60) mod 10), 58,
              digit_unit (nat (s mod 60) div 10), digit_unit (nat (s mod 60) mod 10)]) \<and>
   (6000 \<le> s \<and> s < 2 ^ 53 \<longrightarrow>
      (\<exists>mm. formatTime s =
              Some (mm @ [58, digit_unit (nat (s mod 60) div 10),
                          digit_unit (nat (s mod 60) mod 10)]) \<and>
            read_decimal mm = Some (nat (s div 60)) \<and> 2 < length mm \<and> hd mm \<noteq> 48)) \<and>
   (0 \<le> s \<longrightarrow>
      read_decimal [digit_unit (nat (s mod 60) div 10), digit_unit (nat (s mod 60) mod 10)] =
        Some (nat (s mod 60)) \<and>
      (s < 6000 \<longrightarrow>
         read_decimal [digit_unit (nat (s div 60) div 10), digit_unit (nat (s div 60) mod 10)] =
           Some (nat (s div 60))))"
proof -
  have rd2: "read_decimal [digit_unit (n div 10), digit_unit (n mod 10)] = Some n"
    if "n < 100" for n
    using that
    by (simp add: read_decimal_def digit_value_digit_unit)
  have a: "formatTime s =
        Some [digit_unit (nat (s div 60) div 10), digit_unit (nat (s div 60) mod 10), 58,
              digit_unit (nat (s mod 60) div 10), digit_unit (nat (s mod 60) mod 10)]"
    if "0 \<le> s" "s < 6000"
  proof -
    from that have "nat (s div 60) < 100" by simp
    moreover from that have "s < 2 ^ 53" by simp
    ultimately show ?thesis using that(1) by (simp add: formatTime_nonneg two_digits)
  qed
  have b: "\<exists>mm. formatTime s =
              Some (mm @ [58, digit_unit (nat (s mod 60) div 10),
                          digit_unit (nat (s mod 60) mod 10)]) \<and>
            read_decimal mm = Some (nat (s div 60)) \<and> 2 < length mm \<and> hd mm \<noteq> 48"
    if "6000 \<le> s" "s < 2 ^ 53"
  proof -
    from that have m: "100 \<le> nat (s div 60)" by simp
    then have l: "2 < length (String_nat (nat (s div 60)))" by (rule length_String_nat_3)
    from m have h: "hd (String_nat (nat (s div 60))) \<noteq> 48" by (simp add: hd_String_nat)
    from that have "0 \<le> s" by simp
    with that(2) l have "formatTime s =
        Some (String_nat (nat (s div 60)) @
           [58, digit_unit (nat (s mod 60) div 10), digit_unit (nat (s mod 60) mod 10)])"
      by (simp add: formatTime_nonneg padStart_2)
    with l h read_decimal_String_nat [of "nat (s div 60)"] show ?thesis by blast
  qed
  have c: "read_decimal [digit_unit (nat (s mod 60) div 10), digit_unit (nat (s mod 60) mod 10)] =
        Some (nat (s mod 60))" if "0 \<le> s"
    using that by (simp add: rd2)
  have d: "read_decimal [digit_unit (nat (s div 60) div 10), digit_unit (nat (s div 60) mod 10)] =
           Some (nat (s div 60))" if "0 \<le> s" "s < 6000"
    using that by (simp add: rd2)
  from a b c d show ?thesis by blast
qed

theorem formatTime_MM_SS_witness:
  "formatTime 3599 = Some (js ''59:59'') \<and>
   (\<exists>mm. formatTime 6001 = Some (mm @ js '':01'') \<and> read_decimal mm = Some 100 \<and>
      2 < length mm)"
  using formatTime_MM_SS [of 3599] formatTime_MM_SS [of 6001]
  by (auto simp add: digit_unit_def js_def)


section \<open>The task store: proofs\<close>

lemma String_includes_sublist: "String_includes s q \<longleftrightarrow> sublist q s"
  by (induction s) (simp_all add: sublist_Cons_right)

lemma toLowerCase_latin1_eq: "toLowerCase_latin1 a = toLowerCase_latin1 b \<longleftrightarrow> same_letter a b"
  unfolding toLowerCase_latin1_def same_letter_def capital_def by presburger

lemma blank_iff_trim: "blank s \<longleftrightarrow> trim s = []"
proof
  assume "blank s"
  then show "trim s = []"
    by (auto simp add: blank_def trim_def dropWhile_eq_Nil_conv dest: set_dropWhileD)
next
  assume "trim s = []"
  then have "\<forall>c \<in> set (dropWhile isWhiteSpace s). isWhiteSpace c"
    by (simp add: trim_def dropWhile_eq_Nil_conv)
  then have "dropWhile isWhiteSpace s = []"
    using hd_dropWhile [of isWhiteSpace s] by (cases "dropWhile isWhiteSpace s") auto
  then show "blank s" by (simp add: blank_def dropWhile_eq_Nil_conv)
qed

lemma blank_simps: "blank [] = True" "blank (c # s) = (isWhiteSpace c \<and> blank s)"
  by (simp_all add: blank_def)

lemma map_eq_list_all2: "map f u = map f q \<longleftrightarrow> list_all2 (\<lambda>a b. f a = f b) u q"
  by (auto simp add: list_all2_conv_all_nth list_eq_iff_nth_eq)

lemma occurs_iff:
  assumes "unitwise lc s" "unitwise lc q"
  shows "occurs_ignoring_case q s \<longleftrightarrow> String_includes (lc s) (lc q)"
proof -
  have sl: "same_letter = (\<lambda>a b. toLowerCase_latin1 a = toLowerCase_latin1 b)"
    by (simp add: fun_eq_iff toLowerCase_latin1_eq)
  have l: "lc s = map toLowerCase_latin1 s" "lc q = map toLowerCase_latin1 q"
    using assms by (simp_all add: unitwise_def)
  show ?thesis
  proof
    assume "occurs_ignoring_case q s"
    then obtain ps u ss where s: "s = ps @ u @ ss" and u: "list_all2 same_letter u q"
      by (auto simp add: occurs_ignoring_case_def)
    from u have "map toLowerCase_latin1 u = map toLowerCase_latin1 q"
      by (simp add: sl map_eq_list_all2)
    then have "map toLowerCase_latin1 s =
        map toLowerCase_latin1 ps @ map toLowerCase_latin1 q @ map toLowerCase_latin1 ss"
      by (simp add: s)
    then have "lc s = map toLowerCase_latin1 ps @ lc q @ map toLowerCase_latin1 ss"
      by (simp only: l)
    then show "String_includes (lc s) (lc q)"
      unfolding String_includes_sublist sublist_def by blast
  next
    assume "String_includes (lc s) (lc q)"
    then obtain ps' ss' where e: "map toLowerCase_latin1 s = ps' @ map toLowerCase_latin1 q @ ss'"
      by (auto simp add: String_includes_sublist sublist_def l)
    then obtain ps r where s1: "s = ps @ r"
      and r: "map toLowerCase_latin1 q @ ss' = map toLowerCase_latin1 r"
      unfolding map_eq_append_conv by blast
    then obtain u ss where s2: "r = u @ ss"
      and u: "map toLowerCase_latin1 q = map toLowerCase_latin1 u"
      unfolding append_eq_map_conv by blast
    from u have "list_all2 same_letter u q" by (simp add: sl map_eq_list_all2 [symmetric])
    with s1 s2 show "occurs_ignoring_case q s"
      unfolding occurs_ignoring_case_def by blast
  qed
qed

lemma handleSubmit_blank:
  "blank (form_title f) \<Longrightarrow>
   handleSubmit initialTask uuid now f =
     (f\<lparr>form_errors := [(js ''title'', js ''Title is required.'')]\<rparr>, None)"
  by (simp add: handleSubmit_def blank_iff_trim)

lemma handleSubmit_valid:
  "\<not> blank (form_title f) \<Longrightarrow>
   handleSubmit initialTask uuid now f = (f, Some
           \<lparr>task_id = (case initialTask of None \<Rightarrow> uuid
                        | Some t \<Rightarrow> if task_id t \<noteq> [] then task_id t else uuid),
            title = form_title f,
            description = Some (form_description f),
            priority = form_priority f,
            completed = (case initialTask of None \<Rightarrow> False | Some t \<Rightarrow> completed t),
            dueDate = (if form_dueDate f \<noteq> [] then Some (form_dueDate f) else None),
            createdAt = (case initialTask of None \<Rightarrow> now
                         | Some t \<Rightarrow> if createdAt t \<noteq> [] then createdAt t else now)\<rparr>)"
  by (simp add: handleSubmit_def blank_iff_trim)

lemma filterTasks_blank: "blank q \<Longrightarrow> filterTasks lc ts q = ts"
  by (simp add: filterTasks_def blank_iff_trim)

text \<open>
  Claim C3.  Submitting the form with a title that is empty or consists of white space
  only changes nothing in the page state, so the task list stays as it is; no task is
  handed to \<open>onSave\<close>, and the form's errors become the single entry keyed \<open>title\<close>.
  The function is total: nothing is thrown.
\<close>

theorem create_blank_title:
  "blank (form_title f) \<Longrightarrow>
   submit uuid now f st =
     (f\<lparr>form_errors := [(js ''title'', js ''Title is required.'')]\<rparr>, st) \<and>
   snd (handleSubmit (editingTask st) uuid now f) = None \<and>
   map fst (form_errors (fst (submit uuid now f st))) = [js ''title'']"
  by (simp add: submit_def handleSubmit_blank)

theorem create_blank_title_witness:
  "blank (js '' '') \<and>
   submit (js ''u1'') (js ''2024'')
      \<lparr>form_title = js '' '', form_description = js ''d'', form_priority = medium,
        form_dueDate = [], form_errors = []\<rparr> Index =
     (\<lparr>form_title = js '' '', form_description = js ''d'', form_priority = medium,
        form_dueDate = [], form_errors = [(js ''title'', js ''Title is required.'')]\<rparr>, Index)"
proof -
  have b: "blank (js '' '')" by (simp add: blank_def isWhiteSpace_def js_def)
  from create_blank_title [of "\<lparr>form_title = js '' '', form_description = js ''d'',
      form_priority = medium, form_dueDate = [], form_errors = []\<rparr>" "js ''u1''" "js ''2024''" Index] b
  show ?thesis by simp
qed




lemma toggle_twice_id: "handleToggleComplete t (handleToggleComplete t st) = st"
proof -
  have "map ((\<lambda>task. if task_id task = task_id t then task\<lparr>completed := \<not> completed task\<rparr> else task) \<circ>
             (\<lambda>task. if task_id task = task_id t then task\<lparr>completed := \<not> completed task\<rparr> else task))
          (tasks st) = tasks st"
    by (rule map_idI) simp
  then show ?thesis by (simp add: handleToggleComplete_def)
qed

lemma toggle_absent:
  "task_id t \<notin> task_id ` set (tasks st) \<Longrightarrow> handleToggleComplete t st = st"
proof -
  assume "task_id t \<notin> task_id ` set (tasks st)"
  then have a: "\<forall>x \<in> set (tasks st). task_id x \<noteq> task_id t" by (metis imageI)
  have "map (\<lambda>task. if task_id task = task_id t then task\<lparr>completed := \<not> completed task\<rparr> else task)
          (tasks st) = tasks st"
    by (rule map_idI) (simp add: a)
  then show ?thesis by (simp add: handleToggleComplete_def)
qed

lemma toggle_fold:
  "length (tasks (fold handleToggleComplete us st)) = length (tasks st) \<and>
   (\<forall>i < length (tasks st).
      tasks (fold handleToggleComplete us st) ! i =
        (tasks st ! i)\<lparr>completed := completed (tasks (fold handleToggleComplete us st) ! i)\<rparr> \<and>
      (task_id (tasks st ! i) \<notin> task_id ` set us \<longrightarrow>
         tasks (fold handleToggleComplete us st) ! i = tasks st ! i))"
proof (induction us arbitrary: st)
  case Nil
  then show ?case by simp
next
  case (Cons u us)
  let ?st = "handleToggleComplete u st"
  have l: "length (tasks ?st) = length (tasks st)" by (simp add: handleToggleComplete_def)
  have n: "tasks ?st ! i = (if task_id (tasks st ! i) = task_id u
      then (tasks st ! i)\<lparr>completed := \<not> completed (tasks st ! i)\<rparr> else tasks st ! i)"
    if "i < length (tasks st)" for i
    using that by (simp add: handleToggleComplete_def)
  from Cons [of ?st] have ih:
    "length (tasks (fold handleToggleComplete us ?st)) = length (tasks st)"
    "\<And>i. i < length (tasks st) \<Longrightarrow>
      tasks (fold handleToggleComplete us ?st) ! i =
        (tasks ?st ! i)\<lparr>completed := completed (tasks (fold handleToggleComplete us ?st) ! i)\<rparr>"
    "\<And>i. i < length (tasks st) \<Longrightarrow> task_id (tasks ?st ! i) \<notin> task_id ` set us \<Longrightarrow>
         tasks (fold handleToggleComplete us ?st) ! i = tasks ?st ! i"
    by (simp_all add: l)
  show ?case
  proof (intro conjI allI impI)
    show "length (tasks (fold handleToggleComplete (u # us) st)) = length (tasks st)"
      using ih(1) by simp
  next
    fix i assume i: "i < length (tasks st)"
    have "tasks (fold handleToggleComplete us ?st) ! i =
        (tasks ?st ! i)\<lparr>completed := completed (tasks (fold handleToggleComplete us ?st) ! i)\<rparr>"
      by (rule ih(2) [OF i])
    also have "\<dots> = (tasks st ! i)\<lparr>completed := completed (tasks (fold handleToggleComplete us ?st) ! i)\<rparr>"
      by (simp add: n [OF i])
    finally show "tasks (fold handleToggleComplete (u # us) st) ! i =
        (tasks st ! i)\<lparr>completed := completed (tasks (fold handleToggleComplete (u # us) st) ! i)\<rparr>"
      by simp
  next
    fix i assume i: "i < length (tasks st)"
      and a: "task_id (tasks st ! i) \<notin> task_id ` set (u # us)"
    from a have "task_id (tasks st ! i) \<noteq> task_id u" "task_id (tasks st ! i) \<notin> task_id ` set us"
      by auto
    with i have "tasks ?st ! i = tasks st ! i" by (simp add: n)
    with ih(3) [OF i] \<open>task_id (tasks st ! i) \<notin> task_id ` set us\<close>
    show "tasks (fold handleToggleComplete (u # us) st) ! i = tasks st ! i" by simp
  qed
qed

lemma toggle_fold_fields:
  assumes "i < length (tasks st)"
  shows "task_id (tasks (fold handleToggleComplete us st) ! i) = task_id (tasks st ! i)"
    and "createdAt (tasks (fold handleToggleComplete us st) ! i) = createdAt (tasks st ! i)"
    and "title (tasks (fold handleToggleComplete us st) ! i) = title (tasks st ! i)"
    and "description (tasks (fold handleToggleComplete us st) ! i) = description (tasks st ! i)"
    and "priority (tasks (fold handleToggleComplete us st) ! i) = priority (tasks st ! i)"
    and "dueDate (tasks (fold handleToggleComplete us st) ! i) = dueDate (tasks st ! i)"
proof -
  from toggle_fold [of us st] assms
  have e: "tasks (fold handleToggleComplete us st) ! i =
        (tasks st ! i)\<lparr>completed := completed (tasks (fold handleToggleComplete us st) ! i)\<rparr>"
    by blast
  show "task_id (tasks (fold handleToggleComplete us st) ! i) = task_id (tasks st ! i)"
    by (subst e) simp
  show "createdAt (tasks (fold handleToggleComplete us st) ! i) = createdAt (tasks st ! i)"
    by (subst e) simp
  show "title (tasks (fold handleToggleComplete us st) ! i) = title (tasks st ! i)"
    by (subst e) simp
  show "description (tasks (fold handleToggleComplete us st) ! i) = description (tasks st ! i)"
    by (subst e) simp
  show "priority (tasks (fold handleToggleComplete us st) ! i) = priority (tasks st ! i)"
    by (subst e) simp
  show "dueDate (tasks (fold handleToggleComplete us st) ! i) = dueDate (tasks st ! i)"
    by (subst e) simp
qed


lemma toggle_fold_ids:
  "map task_id (tasks (fold handleToggleComplete us st)) = map task_id (tasks st)"
  using toggle_fold [of us st]
  by (intro nth_equalityI) (simp_all add: toggle_fold_fields)

lemma toggle_fold_editingTask:
  "editingTask (fold handleToggleComplete us st) = editingTask st"
  by (induction us arbitrary: st) (simp_all add: handleToggleComplete_def)

lemma map_replace_distinct:
  assumes "distinct (map k xs)" "i < length xs"
  shows "map (\<lambda>x. if k x = k (xs ! i) then e else x) xs = xs[i := e]"
proof (rule nth_equalityI)
  show "length (map (\<lambda>x. if k x = k (xs ! i) then e else x) xs) = length (xs[i := e])" by simp
next
  fix j assume "j < length (map (\<lambda>x. if k x = k (xs ! i) then e else x) xs)"
  then have j: "j < length xs" by simp
  have "k (xs ! j) = k (xs ! i) \<longleftrightarrow> j = i"
    using assms j nth_eq_iff_index_eq [of "map k xs" j i] by simp
  with j show "map (\<lambda>x. if k x = k (xs ! i) then e else x) xs ! j = xs[i := e] ! j"
    by (simp add: nth_list_update)
qed

lemma map_replace_absent:
  "k e \<notin> k ` set xs \<Longrightarrow> map (\<lambda>x. if k x = k e then e else x) xs = xs"
proof -
  assume "k e \<notin> k ` set xs"
  then have "\<forall>x \<in> set xs. k x \<noteq> k e" by (metis imageI)
  then show ?thesis by (simp add: map_idI)
qed

lemma submit_edit:
  assumes "editingTask st = Some t" "\<not> blank (form_title f)"
  shows "tasks (snd (submit uuid now f st)) =
     map (\<lambda>task. if task_id task = (if task_id t \<noteq> [] then task_id t else uuid)
                 then \<lparr>task_id = (if task_id t \<noteq> [] then task_id t else uuid),
                       title = form_title f, description = Some (form_description f),
                       priority = form_priority f, completed = completed t,
                       dueDate = (if form_dueDate f \<noteq> [] then Some (form_dueDate f) else None),
                       createdAt = (if createdAt t \<noteq> [] then createdAt t else now)\<rparr>
                 else task) (tasks st)"
  using assms by (simp add: submit_def handleSubmit_valid handleSaveEditedTask_def)

lemma submit_rejected: "blank (form_title f) \<Longrightarrow> snd (submit uuid now f st) = st"
  by (simp add: submit_def handleSubmit_blank)

lemma list_all_replace:
  "list_all P xs \<Longrightarrow> P e \<Longrightarrow> list_all P (map (\<lambda>x. if c x then e else x) xs)"
  by (induction xs) auto

lemma map_update_distinct:
  assumes "distinct (map k xs)" "i < length xs"
  shows "map (\<lambda>x. if k x = k (xs ! i) then g x else x) xs = xs[i := g (xs ! i)]"
proof (rule nth_equalityI)
  show "length (map (\<lambda>x. if k x = k (xs ! i) then g x else x) xs) = length (xs[i := g (xs ! i)])"
    by simp
next
  fix j assume "j < length (map (\<lambda>x. if k x = k (xs ! i) then g x else x) xs)"
  then have j: "j < length xs" by simp
  have "k (xs ! j) = k (xs ! i) \<longleftrightarrow> j = i"
    using assms j nth_eq_iff_index_eq [of "map k xs" j i] by simp
  with j show "map (\<lambda>x. if k x = k (xs ! i) then g x else x) xs ! j = xs[i := g (xs ! i)] ! j"
    by (auto simp add: nth_list_update)
qed

text \<open>
  Claim C6, as stated, fails on a list in which two tasks share an id: toggling the first
  flips \<open>completed\<close> on the second as well, so another task of the list has changed.
\<close>

theorem toggle_shared_id_counterexample:
  "tasks (handleToggleComplete
      \<lparr>task_id = js ''a'', title = js ''x'', description = None, priority = low,
        completed = False, dueDate = None, createdAt = js ''2023''\<rparr>
      (Index\<lparr>tasks :=
         [\<lparr>task_id = js ''a'', title = js ''x'', description = None, priority = low,
            completed = False, dueDate = None, createdAt = js ''2023''\<rparr>,
          \<lparr>task_id = js ''a'', title = js ''y'', description = None, priority = low,
            completed = False, dueDate = None, createdAt = js ''2024''\<rparr>]\<rparr>)) ! 1 =
     \<lparr>task_id = js ''a'', title = js ''y'', description = None, priority = low,
       completed = True, dueDate = None, createdAt = js ''2024''\<rparr> \<and>
   \<lparr>task_id = js ''a'', title = js ''y'', description = None, priority = low,
     completed = True, dueDate = None, createdAt = js ''2024''\<rparr> \<noteq>
     \<lparr>task_id = js ''a'', title = js ''y'', description = None, priority = low,
       completed = False, dueDate = None, createdAt = js ''2024''\<rparr>"
  by (simp add: handleToggleComplete_def)

text \<open>
  Claim C6, amended.  Toggling twice with the same task gives back the page state, one
  toggle having flipped \<open>completed\<close> on the tasks with that id.  After any sequence of
  toggles the list has the same length and every task has kept its id, \<open>createdAt\<close>,
  title, description, priority and due date; a task whose id is none of the toggled ones
  is unchanged.  When the ids in the list are distinct, one toggle changes the list at the
  position of the task with that id only, so every other task is unchanged.  Toggling an
  id that is not in the list changes nothing.
\<close>

theorem toggle_twice:
  "handleToggleComplete t (handleToggleComplete t st) = st \<and>
   (\<forall>i < length (tasks st). task_id (tasks st ! i) = task_id t \<longrightarrow>
      completed (tasks (handleToggleComplete t st) ! i) = (\<not> completed (tasks st ! i))) \<and>
   length (tasks (fold handleToggleComplete us st)) = length (tasks st) \<and>
   (\<forall>i < length (tasks st).
      task_id (tasks (fold handleToggleComplete us st) ! i) = task_id (tasks st ! i) \<and>
      createdAt (tasks (fold handleToggleComplete us st) ! i) = createdAt (tasks st ! i) \<and>
      title (tasks (fold handleToggleComplete us st) ! i) = title (tasks st ! i) \<and>
      description (tasks (fold handleToggleComplete us st) ! i) = description (tasks st ! i) \<and>
      priority (tasks (fold handleToggleComplete us st) ! i) = priority (tasks st ! i) \<and>
      dueDate (tasks (fold handleToggleComplete us st) ! i) = dueDate (tasks st ! i) \<and>
      (task_id (tasks st ! i) \<notin> task_id ` set us \<longrightarrow>
         tasks (fold handleToggleComplete us st) ! i = tasks st ! i)) \<and>
   (distinct (map task_id (tasks st)) \<and> i < length (tasks st) \<and>
    task_id (tasks st ! i) = task_id t \<longrightarrow>
      tasks (handleToggleComplete t st) =
        (tasks st)[i := (tasks st ! i)\<lparr>completed := \<not> completed (tasks st ! i)\<rparr>]) \<and>
   (task_id t \<notin> task_id ` set (tasks st) \<longrightarrow> handleToggleComplete t st = st)"
proof -
  have a: "\<forall>i < length (tasks st). task_id (tasks st ! i) = task_id t \<longrightarrow>
      completed (tasks (handleToggleComplete t st) ! i) = (\<not> completed (tasks st ! i))"
    by (simp add: handleToggleComplete_def)
  have d: "tasks (handleToggleComplete t st) =
        (tasks st)[i := (tasks st ! i)\<lparr>completed := \<not> completed (tasks st ! i)\<rparr>]"
    if "distinct (map task_id (tasks st))" "i < length (tasks st)"
      "task_id (tasks st ! i) = task_id t"
    using map_update_distinct [OF that(1,2), of "\<lambda>x. x\<lparr>completed := \<not> completed x\<rparr>"] that(3)
    by (simp add: handleToggleComplete_def)
  from a d toggle_fold [of us st] show ?thesis
    by (simp add: toggle_twice_id toggle_absent toggle_fold_fields)
qed

theorem toggle_twice_witness:
  "handleToggleComplete
      \<lparr>task_id = js ''c'', title = js ''t'', description = None, priority = low,
        completed = False, dueDate = None, createdAt = js ''c''\<rparr>
      (Index\<lparr>tasks := [\<lparr>task_id = js ''a'', title = js ''r'', description = None,
             priority = low, completed = False, dueDate = None, createdAt = js ''c''\<rparr>,
           \<lparr>task_id = js ''b'', title = js ''s'', description = None, priority = low,
             completed = False, dueDate = None, createdAt = js ''c''\<rparr>]\<rparr>) =
     Index\<lparr>tasks := [\<lparr>task_id = js ''a'', title = js ''r'', description = None,
             priority = low, completed = False, dueDate = None, createdAt = js ''c''\<rparr>,
           \<lparr>task_id = js ''b'', title = js ''s'', description = None, priority = low,
             completed = False, dueDate = None, createdAt = js ''c''\<rparr>]\<rparr> \<and>
   tasks (handleToggleComplete
      \<lparr>task_id = js ''b'', title = js ''t'', description = None, priority = low,
        completed = False, dueDate = None, createdAt = js ''c''\<rparr>
      (Index\<lparr>tasks := [\<lparr>task_id = js ''a'', title = js ''r'', description = None,
             priority = low, completed = False, dueDate = None, createdAt = js ''c''\<rparr>,
           \<lparr>task_id = js ''b'', title = js ''s'', description = None, priority = low,
             completed = False, dueDate = None, createdAt = js ''c''\<rparr>]\<rparr>)) =
     [\<lparr>task_id = js ''a'', title = js ''r'', description = None,
             priority = low, completed = False, dueDate = None, createdAt = js ''c''\<rparr>,
      \<lparr>task_id = js ''b'', title = js ''s'', description = None, priority = low,
             completed = True, dueDate = None, createdAt = js ''c''\<rparr>] \<and>
   tasks (fold handleToggleComplete
      [\<lparr>task_id = js ''b'', title = js ''t'', description = None, priority = low,
         completed = False, dueDate = None, createdAt = js ''c''\<rparr>,
       \<lparr>task_id = js ''c'', title = js ''t'', description = None, priority = low,
         completed = False, dueDate = None, createdAt = js ''c''\<rparr>]
      (Index\<lparr>tasks := [\<lparr>task_id = js ''a'', title = js ''r'', description = None,
             priority = low, completed = False, dueDate = None, createdAt = js ''c''\<rparr>,
           \<lparr>task_id = js ''b'', title = js ''s'', description = None, priority = low,
             completed = False, dueDate = None, createdAt = js ''c''\<rparr>]\<rparr>)) ! 0 =
     \<lparr>task_id = js ''a'', title = js ''r'', description = None,
             priority = low, completed = False, dueDate = None, createdAt = js ''c''\<rparr>"
proof -
  let ?a = "\<lparr>task_id = js ''a'', title = js ''r'', description = None,
             priority = low, completed = False, dueDate = None, createdAt = js ''c''\<rparr>"
  let ?b = "\<lparr>task_id = js ''b'', title = js ''s'', description = None, priority = low,
             completed = False, dueDate = None, createdAt = js ''c''\<rparr>"
  let ?tb = "\<lparr>task_id = js ''b'', title = js ''t'', description = None, priority = low,
        completed = False, dueDate = None, createdAt = js ''c''\<rparr>"
  let ?tc = "\<lparr>task_id = js ''c'', title = js ''t'', description = None, priority = low,
        completed = False, dueDate = None, createdAt = js ''c''\<rparr>"
  let ?st = "Index\<lparr>tasks := [?a, ?b]\<rparr>"
  have n: "js ''a'' \<noteq> js ''b''" "js ''a'' \<noteq> js ''c''" "js ''b'' \<noteq> js ''c''"
    by (simp_all add: js_def)
  from n toggle_twice [where t = ?tc and st = ?st and us = "[]" and i = 0]
    toggle_twice [where t = ?tb and st = ?st and us = "[?tb, ?tc]" and i = 1]
  show ?thesis by simp
qed

text \<open>
  Claim C7, as stated, fails on Greek text.  \<open>toLowerCase\<close> writes a capital sigma at
  the end of a word as the final small sigma (962) and elsewhere as the plain one (963).
  With that conversion of the title (922, 927, 931, 924, 927, 931 to 954, 959, 963, 956,
  959, 962) and of the query (922, 927, 931 to 954, 959, 962), a task whose title begins
  with the query itself is filtered out.
\<close>

theorem filter_final_sigma_counterexample:
  "\<not> blank [922, 927, 931] \<and>
   prefix [922, 927, 931] [922, 927, 931, 924, 927, 931] \<and>
   occurs_ignoring_case [922, 927, 931] [922, 927, 931, 924, 927, 931] \<and>
   filterTasks
     (\<lambda>s. if s = [922, 927, 931, 924, 927, 931] then [954, 959, 963, 956, 959, 962]
          else if s = [922, 927, 931] then [954, 959, 962] else s)
     [\<lparr>task_id = js ''1'', title = [922, 927, 931, 924, 927, 931], description = None,
        priority = low, completed = False, dueDate = None, createdAt = js ''c''\<rparr>]
     [922, 927, 931] = []"
proof -
  have "list_all2 same_letter [922, 927, 931] [922, 927, 931]"
    by (simp add: same_letter_def)
  then have "\<exists>ps u ss. [922, 927, 931, 924, 927, 931] = ps @ u @ ss \<and>
      list_all2 same_letter u [922, 927, 931]"
    by (intro exI [of _ "[]"] exI [of _ "[922, 927, 931]"] exI [of _ "[924, 927, 931]"]) simp
  then have o: "occurs_ignoring_case [922, 927, 931] [922, 927, 931, 924, 927, 931]"
    by (simp add: occurs_ignoring_case_def)
  show ?thesis
    by (simp add: o blank_simps isWhiteSpace_def filterTasks_def trim_def)
qed

text \<open>
  Claim C7, amended.  For a query that is empty or white space only the filter returns the
  list itself.  For any other query it returns, in order, the tasks whose title, or whose
  non-empty description, contains the query after \<open>toLowerCase\<close> has been applied to
  both.  Where \<open>toLowerCase\<close> works code unit by code unit on the query, the titles and
  the descriptions, as it does on ASCII and Latin-1 text, these are the tasks whose title
  or description contains the query up to letter case.  The result is a subsequence of
  the list, and the effect writes \<open>filteredTasks\<close> only: \<open>tasks\<close> and the query are
  untouched.
\<close>

theorem filter_by_lowercase:
  "filterTasks lc ts q =
     (if blank q then ts
      else filter (\<lambda>t. sublist (lc q) (lc (title t)) \<or>
                       (\<exists>d. description t = Some d \<and> d \<noteq> [] \<and> sublist (lc q) (lc d))) ts) \<and>
   (\<not> blank q \<and> unitwise lc q \<and>
    (\<forall>t \<in> set ts. unitwise lc (title t) \<and> (\<forall>d. description t = Some d \<longrightarrow> unitwise lc d)) \<longrightarrow>
      filterTasks lc ts q =
        filter (\<lambda>t. occurs_ignoring_case q (title t) \<or>
                     (\<exists>d. description t = Some d \<and> occurs_ignoring_case q d)) ts) \<and>
   subseq (filterTasks lc ts q) ts \<and>
   tasks (filterEffect lc st) = tasks st \<and>
   searchQuery (filterEffect lc st) = searchQuery st \<and>
   filteredTasks (filterEffect lc st) = filterTasks lc (tasks st) (searchQuery st)"
proof -
  have pt: "(String_includes (lc (title t)) (lc q) \<or>
            (case description t of None \<Rightarrow> False
             | Some d \<Rightarrow> d \<noteq> [] \<and> String_includes (lc d) (lc q))) \<longleftrightarrow>
          (sublist (lc q) (lc (title t)) \<or>
            (\<exists>d. description t = Some d \<and> d \<noteq> [] \<and> sublist (lc q) (lc d)))" for t
    by (cases "description t") (simp_all add: String_includes_sublist)
  have g: "filterTasks lc ts q =
        filter (\<lambda>t. sublist (lc q) (lc (title t)) \<or>
                       (\<exists>d. description t = Some d \<and> d \<noteq> [] \<and> sublist (lc q) (lc d))) ts"
    if "\<not> blank q"
  proof -
    from that have "filterTasks lc ts q =
        filter (\<lambda>t. String_includes (lc (title t)) (lc q) \<or>
            (case description t of None \<Rightarrow> False
             | Some d \<Rightarrow> d \<noteq> [] \<and> String_includes (lc d) (lc q))) ts"
      by (simp add: filterTasks_def Let_def blank_iff_trim)
    also have "\<dots> = filter (\<lambda>t. sublist (lc q) (lc (title t)) \<or>
                       (\<exists>d. description t = Some d \<and> d \<noteq> [] \<and> sublist (lc q) (lc d))) ts"
      by (rule filter_cong [OF refl]) (rule pt)
    finally show ?thesis .
  qed
  have a: "filterTasks lc ts q =
     (if blank q then ts
      else filter (\<lambda>t. sublist (lc q) (lc (title t)) \<or>
                       (\<exists>d. description t = Some d \<and> d \<noteq> [] \<and> sublist (lc q) (lc d))) ts)"
    by (simp add: g filterTasks_blank)
  have b: "filterTasks lc ts q =
        filter (\<lambda>t. occurs_ignoring_case q (title t) \<or>
                     (\<exists>d. description t = Some d \<and> occurs_ignoring_case q d)) ts"
    if nb: "\<not> blank q" and uq: "unitwise lc q"
      and ut: "\<forall>t \<in> set ts. unitwise lc (title t) \<and> (\<forall>d. description t = Some d \<longrightarrow> unitwise lc d)"
  proof -
    from nb have "q \<noteq> []" by (auto simp add: blank_def)
    then have e: "\<not> occurs_ignoring_case q []"
      by (auto simp add: occurs_ignoring_case_def)
    have "(sublist (lc q) (lc (title t)) \<or>
            (\<exists>d. description t = Some d \<and> d \<noteq> [] \<and> sublist (lc q) (lc d))) \<longleftrightarrow>
          (occurs_ignoring_case q (title t) \<or>
            (\<exists>d. description t = Some d \<and> occurs_ignoring_case q d))" if "t \<in> set ts" for t
    proof -
      from ut that have t: "unitwise lc (title t)"
        and d: "\<And>d. description t = Some d \<Longrightarrow> unitwise lc d" by blast+
      show ?thesis
        using e by (cases "description t")
          (auto simp add: occurs_iff [OF t uq] occurs_iff [OF d uq] String_includes_sublist)
    qed
    then have "filter (\<lambda>t. sublist (lc q) (lc (title t)) \<or>
                       (\<exists>d. description t = Some d \<and> d \<noteq> [] \<and> sublist (lc q) (lc d))) ts =
        filter (\<lambda>t. occurs_ignoring_case q (title t) \<or>
                     (\<exists>d. description t = Some d \<and> occurs_ignoring_case q d)) ts"
      by (intro filter_cong [OF refl])
    with g [OF nb] show ?thesis by simp
  qed
  have c: "subseq (filterTasks lc ts q) ts"
    by (simp add: filterTasks_def Let_def)
  from a b c show ?thesis by (simp add: filterEffect_def)
qed

theorem filter_by_lowercase_witness:
  "\<not> blank (js ''miLk'') \<and> blank (js ''  '') \<and>
   filterTasks (map toLowerCase_latin1)
     [\<lparr>task_id = js ''1'', title = js ''Buy Milk'', description = None, priority = low,
        completed = False, dueDate = None, createdAt = js ''c''\<rparr>,
      \<lparr>task_id = js ''2'', title = js ''Walk'', description = Some (js ''dog''), priority = low,
        completed = False, dueDate = None, createdAt = js ''c''\<rparr>] (js ''miLk'') =
     [\<lparr>task_id = js ''1'', title = js ''Buy Milk'', description = None, priority = low,
        completed = False, dueDate = None, createdAt = js ''c''\<rparr>] \<and>
   filterTasks (map toLowerCase_latin1)
     [\<lparr>task_id = js ''1'', title = js ''Buy Milk'', description = None, priority = low,
        completed = False, dueDate = None, createdAt = js ''c''\<rparr>] (js ''  '') =
     [\<lparr>task_id = js ''1'', title = js ''Buy Milk'', description = None, priority = low,
        completed = False, dueDate = None, createdAt = js ''c''\<rparr>]"
proof -
  have b: "\<not> blank (js ''miLk'')" "blank (js ''  '')"
    by (simp_all add: blank_def isWhiteSpace_def js_def)
  have u: "unitwise (map toLowerCase_latin1) s" for s by (simp add: unitwise_def)
  have o: "occurs_ignoring_case (js ''miLk'') (js ''Buy Milk'')"
    by (simp add: occurs_iff [OF u u] toLowerCase_latin1_def capital_def js_def)
  have n: "\<not> occurs_ignoring_case (js ''miLk'') (js ''Walk'')"
    "\<not> occurs_ignoring_case (js ''miLk'') (js ''dog'')"
    by (simp_all add: occurs_iff [OF u u] toLowerCase_latin1_def capital_def js_def)
  note m = filter_by_lowercase [where lc = "map toLowerCase_latin1" and q = "js ''miLk''"
      and st = Index and ts =
     "[\<lparr>task_id = js ''1'', title = js ''Buy Milk'', description = None, priority = low,
        completed = False, dueDate = None, createdAt = js ''c''\<rparr>,
      \<lparr>task_id = js ''2'', title = js ''Walk'', description = Some (js ''dog''), priority = low,
        completed = False, dueDate = None, createdAt = js ''c''\<rparr>]", THEN conjunct2,
      THEN conjunct1]
  note w = filter_by_lowercase [where lc = "map toLowerCase_latin1" and q = "js ''  ''"
      and st = Index and ts =
     "[\<lparr>task_id = js ''1'', title = js ''Buy Milk'', description = None, priority = low,
        completed = False, dueDate = None, createdAt = js ''c''\<rparr>]", THEN conjunct1]
  from m b(1) u o n have 1: "filterTasks (map toLowerCase_latin1)
     [\<lparr>task_id = js ''1'', title = js ''Buy Milk'', description = None, priority = low,
        completed = False, dueDate = None, createdAt = js ''c''\<rparr>,
      \<lparr>task_id = js ''2'', title = js ''Walk'', description = Some (js ''dog''), priority = low,
        completed = False, dueDate = None, createdAt = js ''c''\<rparr>] (js ''miLk'') =
     [\<lparr>task_id = js ''1'', title = js ''Buy Milk'', description = None, priority = low,
        completed = False, dueDate = None, createdAt = js ''c''\<rparr>]"
    by simp
  from w b(2) have 2: "filterTasks (map toLowerCase_latin1)
     [\<lparr>task_id = js ''1'', title = js ''Buy Milk'', description = None, priority = low,
        completed = False, dueDate = None, createdAt = js ''c''\<rparr>] (js ''  '') =
     [\<lparr>task_id = js ''1'', title = js ''Buy Milk'', description = None, priority = low,
        completed = False, dueDate = None, createdAt = js ''c''\<rparr>]"
    by simp
  from b 1 2 show ?thesis by simp
qed

text \<open>
  Claim C5, as stated, fails on three kinds of lists.  A task whose \<open>createdAt\<close> is the
  empty string gets the current time when it is saved, even unchanged.  A task whose id
  is the empty string gets a new id, which matches nothing: the edit is lost.  When two
  tasks share an id, saving one overwrites the other as well, \<open>createdAt\<close> included.
\<close>

theorem update_counterexample:
  "createdAt (tasks (snd (submit (js ''u'') (js ''2025'')
      (TaskForm (Some \<lparr>task_id = js ''a'', title = js ''t'', description = None,
           priority = low, completed = False, dueDate = None, createdAt = []\<rparr>))
      (handleEditTask
         \<lparr>task_id = js ''a'', title = js ''t'', description = None, priority = low,
           completed = False, dueDate = None, createdAt = []\<rparr>
         (Index\<lparr>tasks :=
            [\<lparr>task_id = js ''a'', title = js ''t'', description = None, priority = low,
               completed = False, dueDate = None, createdAt = []\<rparr>]\<rparr>)))) ! 0) = js ''2025'' \<and>
   tasks (snd (submit (js ''u'') (js ''2025'')
      \<lparr>form_title = js ''new'', form_description = [], form_priority = low,
        form_dueDate = [], form_errors = []\<rparr>
      (handleEditTask
         \<lparr>task_id = [], title = js ''t'', description = None, priority = low,
           completed = False, dueDate = None, createdAt = js ''2024''\<rparr>
         (Index\<lparr>tasks :=
            [\<lparr>task_id = [], title = js ''t'', description = None, priority = low,
               completed = False, dueDate = None, createdAt = js ''2024''\<rparr>]\<rparr>)))) =
     [\<lparr>task_id = [], title = js ''t'', description = None, priority = low,
        completed = False, dueDate = None, createdAt = js ''2024''\<rparr>] \<and>
   createdAt (tasks (snd (submit (js ''u'') (js ''2025'')
      \<lparr>form_title = js ''new'', form_description = [], form_priority = low,
        form_dueDate = [], form_errors = []\<rparr>
      (handleEditTask
         \<lparr>task_id = js ''a'', title = js ''t'', description = None, priority = low,
           completed = False, dueDate = None, createdAt = js ''2023''\<rparr>
         (Index\<lparr>tasks :=
            [\<lparr>task_id = js ''a'', title = js ''t'', description = None, priority = low,
               completed = False, dueDate = None, createdAt = js ''2023''\<rparr>,
             \<lparr>task_id = js ''a'', title = js ''s'', description = None, priority = low,
               completed = False, dueDate = None, createdAt = js ''2024''\<rparr>]\<rparr>)))) ! 1) =
     js ''2023''"
  by (simp add: submit_def handleSubmit_def handleEditTask_def handleSaveEditedTask_def
      TaskForm_def Index_def trim_def isWhiteSpace_def js_def)

text \<open>
  Claim C5, amended.  Let the form be open on a task \<open>t\<close> with a non-empty id.  Submitting
  keeps the length of the list, leaves every task with another id as it is, and leaves
  the whole list as it is when no task has that id.  If moreover the ids in the list are
  distinct, the task at position \<open>i\<close> has the id of \<open>t\<close>, the \<open>createdAt\<close> of \<open>t\<close> is
  non-empty and the submitted title is not blank, then the list changes at position \<open>i\<close>
  only: the task there keeps its id, takes title, description, priority and due date from
  the form, and takes \<open>createdAt\<close> and \<open>completed\<close> from \<open>t\<close>.  When the form was
  opened on the listed task and only toggles have happened since, that \<open>createdAt\<close> is
  the listed task's own, so id and \<open>createdAt\<close> are both kept.
\<close>

theorem update_in_place:
  "(editingTask st = Some t \<and> task_id t \<noteq> [] \<longrightarrow>
      length (tasks (snd (submit uuid now f st))) = length (tasks st) \<and>
      (\<forall>j < length (tasks st). task_id (tasks st ! j) \<noteq> task_id t \<longrightarrow>
         tasks (snd (submit uuid now f st)) ! j = tasks st ! j) \<and>
      (task_id t \<notin> task_id ` set (tasks st) \<longrightarrow>
         tasks (snd (submit uuid now f st)) = tasks st)) \<and>
   (editingTask st = Some t \<and> task_id t \<noteq> [] \<and> createdAt t \<noteq> [] \<and>
    \<not> blank (form_title f) \<and> distinct (map task_id (tasks st)) \<and>
    i < length (tasks st) \<and> task_id (tasks st ! i) = task_id t \<longrightarrow>
      tasks (snd (submit uuid now f st)) =
        (tasks st)[i := \<lparr>task_id = task_id (tasks st ! i), title = form_title f,
                          description = Some (form_description f),
                          priority = form_priority f, completed = completed t,
                          dueDate = (if form_dueDate f \<noteq> [] then Some (form_dueDate f)
                                     else None),
                          createdAt = createdAt t\<rparr>]) \<and>
   (i < length (tasks st0) \<and> tasks st0 ! i = t \<and> task_id t \<noteq> [] \<and> createdAt t \<noteq> [] \<and>
    \<not> blank (form_title f) \<and> distinct (map task_id (tasks st0)) \<and>
    st = fold handleToggleComplete us (handleEditTask t st0) \<longrightarrow>
      tasks (snd (submit uuid now f st)) =
        (tasks st)[i := (tasks st ! i)\<lparr>title := form_title f,
                          description := Some (form_description f),
                          priority := form_priority f, completed := completed t,
                          dueDate := (if form_dueDate f \<noteq> [] then Some (form_dueDate f)
                                      else None)\<rparr>])"
proof -
  have a: "length (tasks (snd (submit uuid now f st))) = length (tasks st) \<and>
      (\<forall>j < length (tasks st). task_id (tasks st ! j) \<noteq> task_id t \<longrightarrow>
         tasks (snd (submit uuid now f st)) ! j = tasks st ! j) \<and>
      (task_id t \<notin> task_id ` set (tasks st) \<longrightarrow>
         tasks (snd (submit uuid now f st)) = tasks st)"
    if e: "editingTask st = Some t" and n: "task_id t \<noteq> []"
  proof (cases "blank (form_title f)")
    case True
    then show ?thesis by (simp add: submit_rejected)
  next
    case False
    have "\<forall>x \<in> set (tasks st). task_id x \<noteq> task_id t"
      if "task_id t \<notin> task_id ` set (tasks st)"
      using that by (metis imageI)
    then show ?thesis
      using n by (simp add: submit_edit [OF e False] map_idI)
  qed
  have b: "tasks (snd (submit uuid now f st)) =
        (tasks st)[i := \<lparr>task_id = task_id (tasks st ! i), title = form_title f,
                          description = Some (form_description f),
                          priority = form_priority f, completed = completed t,
                          dueDate = (if form_dueDate f \<noteq> [] then Some (form_dueDate f)
                                     else None),
                          createdAt = createdAt t\<rparr>]"
    if e: "editingTask st = Some t" and n: "task_id t \<noteq> []" and c: "createdAt t \<noteq> []"
      and v: "\<not> blank (form_title f)" and d: "distinct (map task_id (tasks st))"
      and i: "i < length (tasks st)" and t: "task_id (tasks st ! i) = task_id t"
    for st :: index_state
  proof -
    define e' where "e' = \<lparr>task_id = task_id (tasks st ! i), title = form_title f,
        description = Some (form_description f), priority = form_priority f,
        completed = completed t,
        dueDate = (if form_dueDate f \<noteq> [] then Some (form_dueDate f) else None),
        createdAt = createdAt t\<rparr>"
    have he: "handleSubmit (Some t) uuid now f = (f, Some e')"
      using v n c t unfolding e'_def by (simp add: handleSubmit_valid)
    have ide: "task_id e' = task_id (tasks st ! i)" by (simp add: e'_def)
    have "tasks (snd (submit uuid now f st)) =
        map (\<lambda>task. if task_id task = task_id (tasks st ! i) then e' else task) (tasks st)"
      using e by (simp add: submit_def he handleSaveEditedTask_def ide)
    also have "\<dots> = (tasks st)[i := e']"
      using map_replace_distinct [OF d i, of e'] by simp
    finally show ?thesis unfolding e'_def .
  qed
  have c: "tasks (snd (submit uuid now f st)) =
        (tasks st)[i := (tasks st ! i)\<lparr>title := form_title f,
                          description := Some (form_description f),
                          priority := form_priority f, completed := completed t,
                          dueDate := (if form_dueDate f \<noteq> [] then Some (form_dueDate f)
                                      else None)\<rparr>]"
    if i: "i < length (tasks st0)" and t: "tasks st0 ! i = t" and n: "task_id t \<noteq> []"
      and ca: "createdAt t \<noteq> []" and v: "\<not> blank (form_title f)"
      and d: "distinct (map task_id (tasks st0))"
      and s: "st = fold handleToggleComplete us (handleEditTask t st0)"
  proof -
    let ?s0 = "handleEditTask t st0"
    have t0: "tasks ?s0 = tasks st0" by (simp add: handleEditTask_def)
    have e: "editingTask st = Some t"
      by (simp add: s toggle_fold_editingTask handleEditTask_def)
    have ids: "map task_id (tasks st) = map task_id (tasks st0)"
      by (simp add: s toggle_fold_ids t0)
    have l: "length (tasks st) = length (tasks st0)"
      using ids by (metis length_map)
    have i': "i < length (tasks st)" using i l by simp
    have f: "task_id (tasks st ! i) = task_id t" "createdAt (tasks st ! i) = createdAt t"
      using toggle_fold_fields(1,2) [of i ?s0 us] i t by (simp_all add: s t0)
    have d': "distinct (map task_id (tasks st))" using d ids by simp
    have "\<lparr>task_id = task_id (tasks st ! i), title = form_title f,
            description = Some (form_description f),
            priority = form_priority f, completed = completed t,
            dueDate = (if form_dueDate f \<noteq> [] then Some (form_dueDate f) else None),
            createdAt = createdAt t\<rparr> =
          (tasks st ! i)\<lparr>title := form_title f, description := Some (form_description f),
            priority := form_priority f, completed := completed t,
            dueDate := (if form_dueDate f \<noteq> [] then Some (form_dueDate f) else None)\<rparr>"
      using f(2) by simp
    with b [OF e n ca v d' i' f(1)] show ?thesis by simp
  qed
  from a b [of st] c show ?thesis by blast
qed

theorem update_in_place_witness:
  "tasks (snd (submit (js ''u'') (js ''2025'')
      \<lparr>form_title = js ''new'', form_description = js ''d'', form_priority = high,
        form_dueDate = [], form_errors = []\<rparr>
      (fold handleToggleComplete
         [\<lparr>task_id = js ''b'', title = js ''old'', description = None, priority = low,
            completed = True, dueDate = Some (js ''2024-05-05''), createdAt = js ''2024''\<rparr>]
         (handleEditTask
            \<lparr>task_id = js ''b'', title = js ''old'', description = None, priority = low,
              completed = True, dueDate = Some (js ''2024-05-05''), createdAt = js ''2024''\<rparr>
            (Index\<lparr>tasks :=
               [\<lparr>task_id = js ''a'', title = js ''first'', description = None,
                  priority = low, completed = False, dueDate = None, createdAt = js ''2023''\<rparr>,
                \<lparr>task_id = js ''b'', title = js ''old'', description = None, priority = low,
                  completed = True, dueDate = Some (js ''2024-05-05''),
                  createdAt = js ''2024''\<rparr>]\<rparr>))))) =
   [\<lparr>task_id = js ''a'', title = js ''first'', description = None, priority = low,
      completed = False, dueDate = None, createdAt = js ''2023''\<rparr>,
    \<lparr>task_id = js ''b'', title = js ''new'', description = Some (js ''d''), priority = high,
      completed = True, dueDate = None, createdAt = js ''2024''\<rparr>]"
proof -
  let ?a = "\<lparr>task_id = js ''a'', title = js ''first'', description = None,
                  priority = low, completed = False, dueDate = None, createdAt = js ''2023''\<rparr>"
  let ?b = "\<lparr>task_id = js ''b'', title = js ''old'', description = None, priority = low,
                  completed = True, dueDate = Some (js ''2024-05-05''),
                  createdAt = js ''2024''\<rparr>"
  let ?f = "\<lparr>form_title = js ''new'', form_description = js ''d'', form_priority = high,
        form_dueDate = [], form_errors = []\<rparr>"
  let ?st0 = "Index\<lparr>tasks := [?a, ?b]\<rparr>"
  let ?st = "fold handleToggleComplete [?b] (handleEditTask ?b ?st0)"
  have h: "js ''a'' \<noteq> js ''b''" "js ''b'' \<noteq> []" "js ''2024'' \<noteq> []"
    "\<not> blank (js ''new'')"
    by (simp_all add: js_def blank_simps isWhiteSpace_def)
  have s: "tasks ?st = [?a, ?b\<lparr>completed := False\<rparr>]"
    using h(1) by (simp add: handleToggleComplete_def handleEditTask_def)
  from h s update_in_place [where i = 1 and uuid = "js ''u''" and now = "js ''2025''"
      and f = ?f and t = ?b and st0 = ?st0 and us = "[?b]" and st = ?st,
      THEN conjunct2, THEN conjunct2]
  show ?thesis by simp
qed

text \<open>
  Claim C10.  A successful submit stores the title as typed: the created task, and every
  task an update replaces, carries exactly the form's title.  Every operation on the list
  keeps all titles non-blank.  Titles are not trimmed: creating a task with the title
  \<open>'' a ''\<close> stores \<open>'' a ''\<close>, whose trimmed form is \<open>''a''\<close>.
\<close>

theorem title_kept_verbatim:
  "(\<not> blank (form_title f) \<and> editingTask st = None \<longrightarrow>
      title (hd (tasks (snd (submit uuid now f st)))) = form_title f) \<and>
   (\<not> blank (form_title f) \<and> editingTask st = Some t \<longrightarrow>
      (\<forall>i < length (tasks st).
         tasks (snd (submit uuid now f st)) ! i = tasks st ! i \<or>
         title (tasks (snd (submit uuid now f st)) ! i) = form_title f) \<and>
      (task_id t \<noteq> [] \<longrightarrow>
         (\<forall>i < length (tasks st). task_id (tasks st ! i) = task_id t \<longrightarrow>
            title (tasks (snd (submit uuid now f st)) ! i) = form_title f))) \<and>
   (titles_nonblank (tasks st) \<longrightarrow>
      titles_nonblank (tasks (snd (submit uuid now f st))) \<and>
      titles_nonblank (tasks (handleDeleteTask t' st)) \<and>
      titles_nonblank (tasks (handleToggleComplete t' st)) \<and>
      titles_nonblank (tasks (fst (handleResetTest (st, tm))))) \<and>
   title (hd (tasks (snd (submit uuid now
      \<lparr>form_title = js '' a '', form_description = [], form_priority = medium,
        form_dueDate = [], form_errors = []\<rparr> Index)))) = js '' a '' \<and>
   trim (js '' a '') = js ''a''"
proof -
  have a: "title (hd (tasks (snd (submit uuid now f st)))) = form_title f"
    if "\<not> blank (form_title f)" "editingTask st = None"
    using that by (simp add: submit_def handleSubmit_valid handleAddTask_def)
  have b: "(\<forall>i < length (tasks st).
         tasks (snd (submit uuid now f st)) ! i = tasks st ! i \<or>
         title (tasks (snd (submit uuid now f st)) ! i) = form_title f) \<and>
      (task_id t \<noteq> [] \<longrightarrow>
         (\<forall>i < length (tasks st). task_id (tasks st ! i) = task_id t \<longrightarrow>
            title (tasks (snd (submit uuid now f st)) ! i) = form_title f))"
    if v: "\<not> blank (form_title f)" and e: "editingTask st = Some t"
    by (simp add: submit_edit [OF e v])
  have c: "titles_nonblank (tasks (snd (submit uuid now f st)))" if i: "titles_nonblank (tasks st)"
  proof (cases "blank (form_title f)")
    case True
    with i show ?thesis by (simp add: submit_rejected)
  next
    case False
    show ?thesis
    proof (cases "editingTask st")
      case None
      with False i show ?thesis
        by (simp add: submit_def handleSubmit_valid handleAddTask_def titles_nonblank_def)
    next
      case (Some t)
      from i have "list_all (\<lambda>x. \<not> blank (title x)) (tasks st)"
        by (simp add: titles_nonblank_def)
      then show ?thesis
        unfolding titles_nonblank_def submit_edit [OF Some False]
        by (rule list_all_replace) (simp add: False)
    qed
  qed
  have d: "titles_nonblank (tasks (handleDeleteTask t' st)) \<and>
      titles_nonblank (tasks (handleToggleComplete t' st)) \<and>
      titles_nonblank (tasks (fst (handleResetTest (st, tm))))" if "titles_nonblank (tasks st)"
    using that
    by (auto simp add: handleDeleteTask_def handleToggleComplete_def handleResetTest_def
        titles_nonblank_def list_all_iff)
  have e: "title (hd (tasks (snd (submit uuid now
      \<lparr>form_title = js '' a '', form_description = [], form_priority = medium,
        form_dueDate = [], form_errors = []\<rparr> Index)))) = js '' a ''"
    by (simp add: submit_def handleSubmit_def handleAddTask_def Index_def trim_def
        isWhiteSpace_def js_def)
  have f: "trim (js '' a '') = js ''a''" by (simp add: trim_def isWhiteSpace_def js_def)
  from a b c d e f show ?thesis by blast
qed

theorem title_kept_verbatim_witness:
  "\<not> blank (js ''  x'') \<and> editingTask Index = None \<and> titles_nonblank (tasks Index) \<and>
   title (hd (tasks (snd (submit (js ''u'') (js ''2025'')
      \<lparr>form_title = js ''  x'', form_description = [], form_priority = medium,
        form_dueDate = [], form_errors = []\<rparr> Index)))) = js ''  x'' \<and>
   titles_nonblank (tasks (snd (submit (js ''u'') (js ''2025'')
      \<lparr>form_title = js ''  x'', form_description = [], form_priority = medium,
        form_dueDate = [], form_errors = []\<rparr> Index)))"
proof -
  have h: "\<not> blank (js ''  x'')" "editingTask Index = None" "titles_nonblank (tasks Index)"
    by (simp_all add: blank_simps isWhiteSpace_def Index_def titles_nonblank_def js_def)
  from h title_kept_verbatim [where st = Index and uuid = "js ''u''" and now = "js ''2025''"
      and f = "\<lparr>form_title = js ''  x'', form_description = [], form_priority = medium,
        form_dueDate = [], form_errors = []\<rparr>"]
  show ?thesis by simp
qed

text \<open>
  What the effect does, case by case.  When reading the storage throws, when nothing or
  the empty text is stored, and when \<open>JSON.parse\<close> throws on the stored text, \<open>tasks\<close>
  stays the empty list and the exception, if any, is logged and goes no further.
  Whatever \<open>JSON.parse\<close> accepts becomes the value of \<open>tasks\<close> as parsed.
\<close>

lemma load_cases:
  "(getItem = Inl e \<longrightarrow> load JSON_parse getItem = (JArray [], [e])) \<and>
   (getItem = Inr None \<or> getItem = Inr (Some []) \<longrightarrow>
      load JSON_parse getItem = (JArray [], [])) \<and>
   (getItem = Inr (Some s) \<and> s \<noteq> [] \<and> JSON_parse s = Inl e \<longrightarrow>
      load JSON_parse getItem = (JArray [], [e])) \<and>
   (getItem = Inr (Some s) \<and> s \<noteq> [] \<and> JSON_parse s = Inr v \<longrightarrow>
      load JSON_parse getItem = (v, []))"
  by (auto simp add: load_def)


text \<open>
  Claim C8 asks for the empty list whenever the stored content is not a serialized list
  of tasks.  The code does not deliver that for content that parses: for the stored text
  \<open>{}\<close>, \<open>JSON.parse\<close> returns the empty object, and that object, which is no list
  at all, becomes the value of \<open>tasks\<close>; nothing is logged.
\<close>

theorem load_wrong_shape:
  "load (\<lambda>s. if s = js ''{}'' then Inr (JObject []) else Inl SyntaxError)
      (Inr (Some (js ''{}''))) =
     (JObject [], []) \<and>
   (\<forall>xs. JObject [] \<noteq> JArray xs)"
  by (simp add: load_def js_def)

end
